theory Spec2Isabelle
  imports Main "HOL-Library.Monad_Syntax"
begin

section \<open>Zookeeper's Challenge: text utilities\<close>

text \<open>
  Strings are byte lists. The program runs in the default "C" locale, where
  \<^verbatim>\<open>std::isspace\<close> holds of the six characters space, \<^verbatim>\<open>\t \n \v \f \r\<close>
  and \<^verbatim>\<open>std::tolower\<close> changes only the letters A to Z.
\<close>

definition isspace :: "char \<Rightarrow> bool" where
  "isspace ch = (ch = CHR '' '' \<or> (9 \<le> (of_char ch :: nat) \<and> (of_char ch :: nat) \<le> 13))"

definition isdigit :: "char \<Rightarrow> bool" where
  "isdigit ch = (48 \<le> (of_char ch :: nat) \<and> (of_char ch :: nat) \<le> 57)"

definition tolower :: "char \<Rightarrow> char" where
  "tolower ch = (if 65 \<le> (of_char ch :: nat) \<and> (of_char ch :: nat) \<le> 90
                 then char_of ((of_char ch :: nat) + 32) else ch)"

text \<open>\<^verbatim>\<open>trim\<close>: the range between the first and the last non-space character, empty when
  there is none.\<close>

definition trim :: "string \<Rightarrow> string" where
  "trim input = rev (dropWhile isspace (rev (dropWhile isspace input)))"

definition toLower :: "string \<Rightarrow> string" where
  "toLower v = map tolower v"

text \<open>\<^verbatim>\<open>std::string::find\<close>: the lowest position at which the needle occurs, \<open>None\<close> for
  \<^verbatim>\<open>npos\<close>.\<close>

fun find_str :: "string \<Rightarrow> string \<Rightarrow> nat option" where
  "find_str [] needle = (if needle = [] then Some 0 else None)"
| "find_str (c # cs) needle =
     (if take (length needle) (c # cs) = needle then Some 0
      else map_option Suc (find_str cs needle))"

text \<open>
  The loop of \<^verbatim>\<open>split\<close>. With an empty delimiter \<^verbatim>\<open>find\<close> answers 0 for ever and
  \<^verbatim>\<open>erase\<close> removes nothing, so the source never leaves the loop: the model answers
  \<open>None\<close> there.
\<close>

lemma find_str_bound:
  "find_str s needle = Some pos \<Longrightarrow> pos + length needle \<le> length s"
proof (induction s arbitrary: pos)
  case Nil
  then show ?case by (simp split: if_splits)
next
  case (Cons c cs)
  show ?case
  proof (cases "take (length needle) (c # cs) = needle")
    case True
    then have "length (take (length needle) (c # cs)) = length needle"
      by simp
    then have "length needle \<le> length (c # cs)"
      by simp
    with True Cons.prems show ?thesis by simp
  next
    case False
    with Cons.prems obtain p where "find_str cs needle = Some p" "pos = Suc p"
      by auto
    with Cons.IH show ?thesis by fastforce
  qed
qed

function splitLoop :: "string \<Rightarrow> string \<Rightarrow> string list \<Rightarrow> string list option" where
  "splitLoop remaining delimiter tokens =
     (if delimiter = [] then None
      else case find_str remaining delimiter of
             Some pos \<Rightarrow>
               splitLoop (drop (pos + length delimiter) remaining) delimiter
                 (tokens @ [take pos remaining])
           | None \<Rightarrow> Some (if remaining \<noteq> [] then tokens @ [remaining] else tokens))"
  by pat_completeness auto
termination
proof (relation "measure (\<lambda>(remaining, delimiter, tokens). length remaining)")
  show "wf (measure (\<lambda>(remaining, delimiter, tokens). length remaining))"
    by simp
next
  fix remaining delimiter :: string and tokens :: "string list" and pos :: nat
  assume ne: "delimiter \<noteq> []" and f: "find_str remaining delimiter = Some pos"
  from ne have "0 < length delimiter"
    by simp
  with find_str_bound [OF f] have "0 < length remaining" "0 < pos + length delimiter"
    by arith+
  then show "((drop (pos + length delimiter) remaining, delimiter,
               tokens @ [take pos remaining]),
              (remaining, delimiter, tokens))
             \<in> measure (\<lambda>(remaining, delimiter, tokens). length remaining)"
    by simp
qed

declare splitLoop.simps [simp del]

definition split :: "string \<Rightarrow> string \<Rightarrow> string list option" where
  "split v delimiter = splitLoop v delimiter []"

section \<open>Stream extraction and number formatting\<close>

text \<open>
  An \<^verbatim>\<open>istringstream\<close> is the text still unread; an extraction returns the value and
  the rest, or \<open>None\<close> when it sets \<^verbatim>\<open>failbit\<close> (every later extraction of the same
  chain then does nothing). Formatted extraction skips leading white space first.
\<close>

definition digitValue :: "char \<Rightarrow> int" where
  "digitValue ch = int (of_char ch) - 48"

definition decimalValue :: "string \<Rightarrow> int" where
  "decimalValue ds = foldl (\<lambda>acc ch. acc * 10 + digitValue ch) 0 ds"

text \<open>The common front of \<^verbatim>\<open>operator>>(int&)\<close> and \<^verbatim>\<open>strtol\<close> in base ten: white space,
  one optional sign, digits. Returns the digits read, the signed value and the rest.\<close>

definition scanDecimal :: "string \<Rightarrow> string \<times> int \<times> string" where
  "scanDecimal s =
     (let r = dropWhile isspace s;
          neg = (r \<noteq> [] \<and> hd r = CHR ''-'');
          r1 = (if r \<noteq> [] \<and> (hd r = CHR ''-'' \<or> hd r = CHR ''+'') then tl r else r);
          ds = takeWhile isdigit r1;
          v = (if neg then - decimalValue ds else decimalValue ds)
      in (ds, v, dropWhile isdigit r1))"

definition INT_MIN :: int where "INT_MIN = - 2147483648"
definition INT_MAX :: int where "INT_MAX = 2147483647"

text \<open>\<^verbatim>\<open>ss >> intVar\<close>: fails without digits and when the value does not fit an \<^verbatim>\<open>int\<close>.\<close>

definition readInt :: "string \<Rightarrow> (int \<times> string) option" where
  "readInt s =
     (case scanDecimal s of (ds, v, rest) \<Rightarrow>
        if ds = [] \<or> v < INT_MIN \<or> INT_MAX < v then None else Some (v, rest))"

text \<open>\<^verbatim>\<open>ss >> charVar\<close>: the next character that is not white space.\<close>

definition readChar :: "string \<Rightarrow> (char \<times> string) option" where
  "readChar s = (case dropWhile isspace s of [] \<Rightarrow> None | c # cs \<Rightarrow> Some (c, cs))"

text \<open>\<^verbatim>\<open>ss >> stringVar\<close>: the next run of characters that are not white space.\<close>

definition readToken :: "string \<Rightarrow> (string \<times> string) option" where
  "readToken s =
     (let r = dropWhile isspace s
      in if r = [] then None
         else Some (takeWhile (\<lambda>ch. \<not> isspace ch) r, dropWhile (\<lambda>ch. \<not> isspace ch) r))"

text \<open>\<^verbatim>\<open>out << n\<close> for an \<^verbatim>\<open>int\<close>, and \<^verbatim>\<open>setw(w) << setfill(c)\<close> in front of it: the field
  is filled on the left up to the width and never cut.\<close>

definition digitChar :: "nat \<Rightarrow> char" where
  "digitChar d = char_of (48 + d)"

fun showNat :: "nat \<Rightarrow> string" where
  "showNat n = (if n < 10 then [digitChar n] else showNat (n div 10) @ [digitChar (n mod 10)])"

declare showNat.simps [simp del]

definition showInt :: "int \<Rightarrow> string" where
  "showInt i = (if i < 0 then CHR ''-'' # showNat (nat (- i)) else showNat (nat i))"

definition setw :: "nat \<Rightarrow> char \<Rightarrow> string \<Rightarrow> string" where
  "setw w fillch s = replicate (w - length s) fillch @ s"

section \<open>Date utilities\<close>

datatype error = RuntimeError string | InvalidArgument string | OutOfRange string

record Date =
  year :: int
  month :: int
  day :: int

definition parseIsoDate :: "string \<Rightarrow> error + Date" where
  "parseIsoDate v =
     (case do { (y, r1) \<leftarrow> readInt v;
                (dash1, r2) \<leftarrow> readChar r1;
                (m, r3) \<leftarrow> readInt r2;
                (dash2, r4) \<leftarrow> readChar r3;
                (d, r5) \<leftarrow> readInt r4;
                Some (y, dash1, m, dash2, d) } of
        None \<Rightarrow> Inl (RuntimeError (''Invalid ISO date: '' @ v))
      | Some (y, dash1, m, dash2, d) \<Rightarrow>
          if dash1 \<noteq> CHR ''-'' then Inl (RuntimeError (''Invalid ISO date: '' @ v))
          else if dash2 \<noteq> CHR ''-'' then Inl (RuntimeError (''Invalid ISO date: '' @ v))
          else Inr \<lparr>year = y, month = m, day = d\<rparr>)"

definition formatIsoDate :: "Date \<Rightarrow> string" where
  "formatIsoDate date =
     setw 4 CHR ''0'' (showInt (year date)) @ ''-'' @ setw 2 CHR ''0'' (showInt (month date))
       @ ''-'' @ setw 2 CHR ''0'' (showInt (day date))"

definition seasonToDate :: "(string \<times> int \<times> int) list" where
  "seasonToDate = [(''spring'', 3, 15), (''summer'', 6, 15), (''fall'', 9, 15),
                   (''autumn'', 9, 15), (''winter'', 12, 15)]"

text \<open>
  The result of an \<^verbatim>\<open>int\<close> operation whose exact value is \<open>v\<close>: the value itself when it
  fits 32 bits, and the two's-complement wrap-around otherwise (what the compiled program
  yields where C++ leaves the overflow undefined).
\<close>

definition wrapInt :: "int \<Rightarrow> int" where
  "wrapInt v = (v + 2147483648) mod 4294967296 - 2147483648"

text \<open>The age is an \<^verbatim>\<open>int\<close> of the source, and \<^verbatim>\<open>arrival.year - age\<close> is an \<^verbatim>\<open>int\<close>
  subtraction.\<close>

definition genBirthDay :: "int \<Rightarrow> string \<Rightarrow> string \<Rightarrow> error + string" where
  "genBirthDay age season arrivalDate =
     (case parseIsoDate arrivalDate of
        Inl e \<Rightarrow> Inl e
      | Inr arrival \<Rightarrow>
          (let birthYear = wrapInt (year arrival - age);
               normalizedSeason = toLower season
           in case map_of seasonToDate normalizedSeason of
                Some (m, d) \<Rightarrow>
                  Inr (formatIsoDate \<lparr>year = birthYear, month = m, day = d\<rparr>)
              | None \<Rightarrow>
                  Inr (formatIsoDate \<lparr>year = birthYear, month = month arrival,
                                      day = day arrival\<rparr>)))"

section \<open>Identifier and name allocation\<close>

definition speciesPrefix :: "string \<Rightarrow> error + string" where
  "speciesPrefix sp =
     (let lowered = toLower sp
      in if lowered = ''hyena'' then Inr ''Hy''
         else if lowered = ''lion'' then Inr ''Li''
         else if lowered = ''tiger'' then Inr ''Ti''
         else if lowered = ''bear'' then Inr ''Be''
         else Inl (RuntimeError (''Unsupported species: '' @ sp)))"

text \<open>\<^verbatim>\<open>m[k]\<close> of a \<^verbatim>\<open>std::map\<close>: a missing key is inserted with the default value
  first. The result is the value found and the map afterwards.\<close>

definition subscript :: "('k \<rightharpoonup> 'v) \<Rightarrow> 'k \<Rightarrow> 'v \<Rightarrow> 'v \<times> ('k \<rightharpoonup> 'v)" where
  "subscript m k dflt = (case m k of None \<Rightarrow> (dflt, m(k \<mapsto> dflt)) | Some v \<Rightarrow> (v, m))"

text \<open>\<^verbatim>\<open>genUniqueId\<close> returns the identifier and the counters after \<^verbatim>\<open>++counters[prefix]\<close>.
  The counter is an unbounded integer here; the \<^verbatim>\<open>int\<close> of the source agrees with it
  below \<open>2^31\<close> increments of one prefix.\<close>

definition genUniqueId :: "string \<Rightarrow> (string \<rightharpoonup> int) \<Rightarrow> error + (string \<times> (string \<rightharpoonup> int))" where
  "genUniqueId sp counters =
     (case speciesPrefix sp of
        Inl e \<Rightarrow> Inl e
      | Inr prefix \<Rightarrow>
          (case subscript counters prefix 0 of (cur, counters1) \<Rightarrow>
             (let next = cur + 1
              in Inr (prefix @ setw 2 CHR ''0'' (showInt next), counters1(prefix \<mapsto> next)))))"

section \<open>The animal hierarchy\<close>

datatype AnimalClass = Hyena | Lion | Tiger | Bear

text \<open>The private members \<^verbatim>\<open>name_\<close>, \<^verbatim>\<open>species_\<close>, ... are the fields \<open>m_name\<close>,
  \<open>m_species\<close>, ...; \<open>cls\<close> is the dynamic class of the object.\<close>

record Animal =
  cls :: AnimalClass
  m_name :: string
  m_species :: string
  m_uniqueId :: string
  m_age :: int
  m_sex :: string
  m_color :: string
  m_weight :: int
  m_origin :: string
  m_arrivalDate :: string
  m_birthDate :: string
  m_socialGroup :: string

text \<open>The four constructors differ in the species string they hand to the base class.\<close>

fun className :: "AnimalClass \<Rightarrow> string" where
  "className Hyena = ''Hyena''"
| "className Lion = ''Lion''"
| "className Tiger = ''Tiger''"
| "className Bear = ''Bear''"

definition newAnimal ::
  "AnimalClass \<Rightarrow> string \<Rightarrow> string \<Rightarrow> int \<Rightarrow> string \<Rightarrow> string \<Rightarrow> int \<Rightarrow> string \<Rightarrow> string \<Rightarrow> string
     \<Rightarrow> string \<Rightarrow> Animal" where
  "newAnimal c nm uid ag sx col wt orig arr birth grp =
     \<lparr>cls = c, m_name = nm, m_species = className c, m_uniqueId = uid, m_age = ag, m_sex = sx,
      m_color = col, m_weight = wt, m_origin = orig, m_arrivalDate = arr, m_birthDate = birth,
      m_socialGroup = grp\<rparr>"

fun habitatName :: "Animal \<Rightarrow> string" where
  "habitatName a =
     (case cls a of Hyena \<Rightarrow> ''Hyena Habitat'' | Lion \<Rightarrow> ''Lion Habitat''
      | Tiger \<Rightarrow> ''Tiger Habitat'' | Bear \<Rightarrow> ''Bear Habitat'')"

fun socialGroupLabel :: "Animal \<Rightarrow> string" where
  "socialGroupLabel a =
     (case cls a of Hyena \<Rightarrow> ''Clan: '' @ m_socialGroup a | Lion \<Rightarrow> ''Pride: '' @ m_socialGroup a
      | Tiger \<Rightarrow> ''Ambush: '' @ m_socialGroup a | Bear \<Rightarrow> ''Sleuth: '' @ m_socialGroup a)"

definition reportLine :: "Animal \<Rightarrow> string" where
  "reportLine a =
     m_uniqueId a @ ''; '' @ m_name a @ ''; birth date '' @ m_birthDate a @ ''; '' @ m_color a
       @ '' color; '' @ m_sex a @ ''; '' @ showInt (m_weight a) @ '' pounds; from '' @ m_origin a
       @ ''; arrived '' @ m_arrivalDate a"

section \<open>Name pools and social groups\<close>

text \<open>A text file is the list of lines that successive \<^verbatim>\<open>std::getline\<close> calls yield;
  \<open>None\<close> is a file that cannot be opened. Every \<^verbatim>\<open>split\<close> below is called with a
  non-empty literal delimiter, where it returns.\<close>

definition parseNameLine :: "string \<Rightarrow> error + (string \<times> string list)" where
  "parseNameLine line =
     (case find_str line '':'' of
        None \<Rightarrow> Inl (RuntimeError (''Expected ':' in name line: '' @ line))
      | Some colonPos \<Rightarrow>
          (let sp = toLower (trim (take colonPos line));
               vals = trim (drop (colonPos + 1) line);
               tokens = the (split vals '','');
               trimmedTokens = filter (\<lambda>cleaned. cleaned \<noteq> []) (map trim tokens)
           in Inr (sp, trimmedTokens)))"

fun loadLoop :: "(string \<rightharpoonup> string list) \<Rightarrow> string list \<Rightarrow> error + (string \<rightharpoonup> string list)" where
  "loadLoop names [] = Inr names"
| "loadLoop names (raw # rest) =
     (let line = trim raw
      in if line = [] then loadLoop names rest
         else case parseNameLine line of
                Inl e \<Rightarrow> Inl e
              | Inr (sp, trimmedTokens) \<Rightarrow> loadLoop (names(sp \<mapsto> trimmedTokens)) rest)"

definition loadAnimalNames :: "string \<Rightarrow> string list option \<Rightarrow> error + (string \<rightharpoonup> string list)" where
  "loadAnimalNames path file =
     (case file of
        None \<Rightarrow> Inl (RuntimeError (''Unable to open name file: '' @ path))
      | Some ls \<Rightarrow> loadLoop Map.empty ls)"

definition popNextName :: "(string \<rightharpoonup> string list) \<Rightarrow> string \<Rightarrow> string \<times> (string \<rightharpoonup> string list)" where
  "popNextName names speciesKey =
     (case subscript names speciesKey [] of (pool, names1) \<Rightarrow>
        (case pool of
           next # remaining \<Rightarrow> (next, names1(speciesKey \<mapsto> remaining))
         | [] \<Rightarrow> (''Unnamed '' @ speciesKey, names1)))"

definition groups :: "(string \<times> string list) list" where
  "groups =
     [(''hyena'', [''Motto Clan'', ''Serengeti Clan'', ''Savannah Clan'', ''Spotted Clan'']),
      (''lion'', [''Golden Pride'', ''Savanna Pride'', ''Sunset Pride'', ''River Pride'']),
      (''tiger'', [''Ember Ambush'', ''Jungle Ambush'', ''River Ambush'', ''Shadow Ambush'']),
      (''bear'', [''Highland Sleuth'', ''Forest Sleuth'', ''Mountain Sleuth'', ''Valley Sleuth''])]"

text \<open>The index is a count, never negative, so \<^verbatim>\<open>%\<close> of the source is \<open>mod\<close>.\<close>

definition selectSocialGroup :: "string \<Rightarrow> int \<Rightarrow> string" where
  "selectSocialGroup speciesKey index =
     (case map_of groups speciesKey of
        None \<Rightarrow> ''Unknown''
      | Some options \<Rightarrow>
          if options = [] then ''Unknown''
          else options ! nat (index mod int (length options)))"

section \<open>The record parser\<close>

record ParsedAnimalRow =
  arrivalDate :: string
  age :: int
  sex :: string
  species :: string
  birthSeason :: string
  color :: string
  weight :: int
  origin :: string

text \<open>\<^verbatim>\<open>std::stoi\<close>: \<^verbatim>\<open>strtol\<close> in base ten on the front of the text; what follows the
  digits is ignored.\<close>

definition stoi :: "string \<Rightarrow> error + int" where
  "stoi s =
     (case scanDecimal s of (ds, v, rest) \<Rightarrow>
        if ds = [] then Inl (InvalidArgument ''stoi'')
        else if v < INT_MIN \<or> INT_MAX < v then Inl (OutOfRange ''stoi'')
        else Inr v)"

text \<open>Part 1: \<^verbatim>\<open>ss >> row.age >> yearToken >> oldToken >> row.sex >> row.species\<close>.\<close>

definition parseAgeSexSpecies :: "string \<Rightarrow> (int \<times> string \<times> string) option" where
  "parseAgeSexSpecies part =
     do { (a, r1) \<leftarrow> readInt part;
          (yearToken, r2) \<leftarrow> readToken r1;
          (oldToken, r3) \<leftarrow> readToken r2;
          (sx, r4) \<leftarrow> readToken r3;
          (sp, r5) \<leftarrow> readToken r4;
          Some (a, toLower sx, toLower sp) }"

text \<open>Part 2: when the lowered text holds "born in", the third token of the lowered text is
  read into the (still empty) season; a failed extraction leaves it empty.\<close>

definition thirdToken :: "string \<Rightarrow> string" where
  "thirdToken s =
     (case do { (bornToken, r1) \<leftarrow> readToken s;
                (inToken, r2) \<leftarrow> readToken r1;
                (tok, r3) \<leftarrow> readToken r2;
                Some tok } of
        None \<Rightarrow> []
      | Some tok \<Rightarrow> tok)"

definition parseSeason :: "string \<Rightarrow> string" where
  "parseSeason part =
     (let seasonSection = toLower part;
          season = (if find_str seasonSection ''born in'' \<noteq> None then thirdToken seasonSection
                    else trim part)
      in if season = [] then ''unknown'' else season)"

definition parseColor :: "string \<Rightarrow> string" where
  "parseColor part =
     (case find_str (toLower part) '' color'' of
        Some colorPos \<Rightarrow> trim (take colorPos part)
      | None \<Rightarrow> trim part)"

definition parseWeight :: "string \<Rightarrow> error + int" where
  "parseWeight part =
     (case find_str part '' '' of
        Some spacePos \<Rightarrow> stoi (take spacePos part)
      | None \<Rightarrow> stoi part)"

fun joinParts :: "string \<Rightarrow> string list \<Rightarrow> string" where
  "joinParts acc [] = acc"
| "joinParts acc (p # ps) = joinParts ((if acc \<noteq> [] then acc @ '', '' else acc) @ p) ps"

definition parseOrigin :: "string list \<Rightarrow> string" where
  "parseOrigin ps =
     (let joined = joinParts [] ps;
          prefix = ''from ''
      in trim (if take (length prefix) (toLower joined) = prefix
               then drop (length prefix) joined else joined))"

definition parseArrivalRow :: "string \<Rightarrow> error + ParsedAnimalRow" where
  "parseArrivalRow line =
     (let parts = the (split line '', '')
      in if length parts < 6 then Inl (RuntimeError (''Malformed arrival entry: '' @ line))
         else case parseAgeSexSpecies (parts ! 1) of
                None \<Rightarrow>
                  Inl (RuntimeError (''Unable to parse age/sex/species segment: '' @ parts ! 1))
              | Some (a, sx, sp) \<Rightarrow>
                  (case parseWeight (parts ! 4) of
                     Inl e \<Rightarrow> Inl e
                   | Inr w \<Rightarrow>
                       Inr \<lparr>arrivalDate = trim (parts ! 0), age = a, sex = sx, species = sp,
                            birthSeason = parseSeason (parts ! 2), color = parseColor (parts ! 3),
                            weight = w, origin = parseOrigin (drop 5 parts)\<rparr>))"

section \<open>The main program\<close>

record ZooState =
  names :: "string \<rightharpoonup> string list"
  animals :: "Animal list"
  animalsByHabitat :: "string \<rightharpoonup> Animal list"
  idCounters :: "string \<rightharpoonup> int"
  speciesCounts :: "string \<rightharpoonup> int"

definition classOfSpecies :: "string \<Rightarrow> AnimalClass option" where
  "classOfSpecies sp =
     (if sp = ''hyena'' then Some Hyena
      else if sp = ''lion'' then Some Lion
      else if sp = ''tiger'' then Some Tiger
      else if sp = ''bear'' then Some Bear
      else None)"

text \<open>The body of the arrival loop for one trimmed, non-empty line, in the order of the
  source: parse, identifier, name, birth date, group, object, bookkeeping. A throw leaves
  the loop at once.\<close>

definition processArrival :: "ZooState \<Rightarrow> string \<Rightarrow> error + ZooState" where
  "processArrival st line =
     (case parseArrivalRow line of
        Inl e \<Rightarrow> Inl e
      | Inr row \<Rightarrow>
     (case genUniqueId (species row) (idCounters st) of
        Inl e \<Rightarrow> Inl e
      | Inr (uniqueId, counters1) \<Rightarrow>
     (case popNextName (names st) (species row) of (nm, names1) \<Rightarrow>
     (case genBirthDay (age row) (birthSeason row) (arrivalDate row) of
        Inl e \<Rightarrow> Inl e
      | Inr birthDate \<Rightarrow>
     (case subscript (speciesCounts st) (species row) 0 of (cnt, counts1) \<Rightarrow>
     (let grp = selectSocialGroup (species row) cnt
      in case classOfSpecies (species row) of
           None \<Rightarrow> Inl (RuntimeError (''Encountered unsupported species: '' @ species row))
         | Some c \<Rightarrow>
             (let created = newAnimal c nm uniqueId (age row) (sex row) (color row) (weight row)
                              (origin row) (arrivalDate row) birthDate grp
              in case subscript counts1 (species row) 0 of (cnt2, counts2) \<Rightarrow>
                 (case subscript (animalsByHabitat st) (habitatName created) [] of
                    (occupants, byHabitat1) \<Rightarrow>
                      Inr \<lparr>names = names1,
                           animals = animals st @ [created],
                           animalsByHabitat =
                             byHabitat1(habitatName created \<mapsto> occupants @ [created]),
                           idCounters = counters1,
                           speciesCounts = counts2(species row \<mapsto> cnt2 + 1)\<rparr>))))))))"

fun arrivalLoop :: "ZooState \<Rightarrow> string list \<Rightarrow> error + ZooState" where
  "arrivalLoop st [] = Inr st"
| "arrivalLoop st (raw # rest) =
     (let line = trim raw
      in if line = [] then arrivalLoop st rest
         else case processArrival st line of
                Inl e \<Rightarrow> Inl e
              | Inr st1 \<Rightarrow> arrivalLoop st1 rest)"

definition newline :: string where
  "newline = [CHR 0x0A]"

definition habitatOrder :: "string list" where
  "habitatOrder = [''Hyena Habitat'', ''Lion Habitat'', ''Tiger Habitat'', ''Bear Habitat'']"

text \<open>One round of the report loop. Both \<^verbatim>\<open>animalsByHabitat[habitat]\<close> go through
  \<^verbatim>\<open>operator[]\<close>; the text written and the map afterwards are returned.\<close>

definition renderHabitat :: "(string \<rightharpoonup> Animal list) \<Rightarrow> string \<Rightarrow> string \<times> (string \<rightharpoonup> Animal list)" where
  "renderHabitat byHabitat habitat =
     (case subscript byHabitat habitat [] of (counted, m1) \<Rightarrow>
     (case subscript m1 habitat [] of (occupants, m2) \<Rightarrow>
        (habitat @ '' ('' @ showNat (length counted) @ '')'' @ newline
           @ concat (map (\<lambda>a. ''  - '' @ reportLine a @ '' | '' @ socialGroupLabel a @ newline)
                       occupants)
           @ newline,
         m2)))"

fun renderReport :: "(string \<rightharpoonup> Animal list) \<Rightarrow> string list \<Rightarrow> string \<times> (string \<rightharpoonup> Animal list)" where
  "renderReport byHabitat [] = ([], byHabitat)"
| "renderReport byHabitat (habitat # rest) =
     (case renderHabitat byHabitat habitat of (txt, m1) \<Rightarrow>
     (case renderReport m1 rest of (txt2, m2) \<Rightarrow> (txt @ txt2, m2)))"

text \<open>
  The files the program touches. The two inputs are given by their lines (\<open>None\<close>: cannot be
  opened), the report by whether it can be opened for writing. In the world, \<open>reportFile\<close>
  is \<open>None\<close> as long as the run has not opened the report, and its content afterwards.
\<close>

record Env =
  namesFile :: "string list option"
  arrivalsFile :: "string list option"
  reportWritable :: bool

record World =
  reportFile :: "string option"
  cout :: string
  cerr :: string

fun what :: "error \<Rightarrow> string" where
  "what (RuntimeError msg) = msg"
| "what (InvalidArgument msg) = msg"
| "what (OutOfRange msg) = msg"

definition namesPath :: string where "namesPath = ''data/animalNames.txt''"
definition arrivalsPath :: string where "arrivalsPath = ''data/arrivingAnimals.txt''"
definition reportPath :: string where "reportPath = ''zooPopulation.txt''"

text \<open>The \<^verbatim>\<open>try\<close> block: the exception thrown, if any, and the world at that moment.\<close>

definition tryBlock :: "Env \<Rightarrow> World \<Rightarrow> error option \<times> World" where
  "tryBlock env w =
     (case loadAnimalNames namesPath (namesFile env) of
        Inl e \<Rightarrow> (Some e, w)
      | Inr loaded \<Rightarrow>
     (case arrivalsFile env of
        None \<Rightarrow> (Some (RuntimeError (''Unable to open arrivals file: '' @ arrivalsPath)), w)
      | Some ls \<Rightarrow>
     (case arrivalLoop \<lparr>names = loaded, animals = [], animalsByHabitat = Map.empty,
                        idCounters = Map.empty, speciesCounts = Map.empty\<rparr> ls of
        Inl e \<Rightarrow> (Some e, w)
      | Inr st \<Rightarrow>
          if \<not> reportWritable env
          then (Some (RuntimeError (''Unable to open report for writing: '' @ reportPath)), w)
          else (case renderReport (animalsByHabitat st) habitatOrder of (txt, byHabitat1) \<Rightarrow>
                  (None, w\<lparr>reportFile := Some txt,
                           cout := cout w @ ''Zoo population report written to '' @ reportPath
                                     @ newline\<rparr>)))))"

text \<open>\<^verbatim>\<open>main\<close>: the exit status and the world at exit.\<close>

definition main :: "Env \<Rightarrow> int \<times> World" where
  "main env =
     (case tryBlock env \<lparr>reportFile = None, cout = [], cerr = []\<rparr> of
        (Some ex, w) \<Rightarrow> (1, w\<lparr>cerr := cerr w @ ''Fatal error: '' @ what ex @ newline\<rparr>)
      | (None, w) \<Rightarrow> (0, w))"

section \<open>Auxiliary notions\<close>

text \<open>Successive calls of \<^verbatim>\<open>genUniqueId\<close>, one for each species of a list, on the counters
  that the previous call left: what a run does with \<^verbatim>\<open>idCounters\<close>.\<close>

fun genUniqueIds :: "string list \<Rightarrow> (string \<rightharpoonup> int) \<Rightarrow> error + (string list \<times> (string \<rightharpoonup> int))" where
  "genUniqueIds [] counters = Inr ([], counters)"
| "genUniqueIds (sp # sps) counters =
     (case genUniqueId sp counters of
        Inl e \<Rightarrow> Inl e
      | Inr (uid, counters1) \<Rightarrow>
          (case genUniqueIds sps counters1 of
             Inl e \<Rightarrow> Inl e
           | Inr (uids, counters2) \<Rightarrow> Inr (uid # uids, counters2)))"

text \<open>The value of a counter, 0 for a prefix not yet in the map.\<close>

definition counterOf :: "(string \<rightharpoonup> int) \<Rightarrow> string \<Rightarrow> int" where
  "counterOf counters prefix = (case counters prefix of None \<Rightarrow> 0 | Some n \<Rightarrow> n)"

text \<open>How many of the first \<open>k\<close> calls were for a species with the given prefix.\<close>

definition callsFor :: "string \<Rightarrow> nat \<Rightarrow> string list \<Rightarrow> nat" where
  "callsFor prefix k sps = length (filter (\<lambda>sp. speciesPrefix sp = Inr prefix) (take k sps))"

text \<open>The shape of the texts that \<^verbatim>\<open>operator>>(int&)\<close> accepts: an optional sign and at
  least one digit, with the value they denote; the range of an \<^verbatim>\<open>int\<close>; and a rest that
  does not go on with a digit.\<close>

definition signedDigits :: "string \<Rightarrow> bool" where
  "signedDigits n =
     (case n of
        [] \<Rightarrow> False
      | c # cs \<Rightarrow> if c = CHR ''-'' \<or> c = CHR ''+'' then cs \<noteq> [] \<and> list_all isdigit cs
                  else list_all isdigit (c # cs))"

definition signedValue :: "string \<Rightarrow> int" where
  "signedValue n =
     (case n of
        [] \<Rightarrow> 0
      | c # cs \<Rightarrow> if c = CHR ''-'' then - decimalValue cs
                  else if c = CHR ''+'' then decimalValue cs
                  else decimalValue (c # cs))"

definition fitsInt :: "int \<Rightarrow> bool" where
  "fitsInt v = (INT_MIN \<le> v \<and> v \<le> INT_MAX)"

definition noDigitAhead :: "string \<Rightarrow> bool" where
  "noDigitAhead rest = (case rest of [] \<Rightarrow> True | c # cs \<Rightarrow> \<not> isdigit c)"

text \<open>The pattern in the words of the specification: three integers (runs of digits)
  separated by the literal \<^verbatim>\<open>-\<close>, and nothing else.\<close>

definition isoPattern :: "string \<Rightarrow> bool" where
  "isoPattern s =
     (let y = takeWhile isdigit s; r1 = dropWhile isdigit s;
          m = takeWhile isdigit (drop 1 r1); r2 = dropWhile isdigit (drop 1 r1);
          d = drop 1 r2
      in y \<noteq> [] \<and> take 1 r1 = ''-'' \<and> m \<noteq> [] \<and> take 1 r2 = ''-'' \<and> d \<noteq> []
         \<and> list_all isdigit d)"

text \<open>A well-formed date with zero-padded fields: four digits, two digits and two digits
  between two \<^verbatim>\<open>-\<close>.\<close>

definition wellFormedIso :: "string \<Rightarrow> bool" where
  "wellFormedIso s =
     (length s = 10 \<and> list_all isdigit (take 4 s) \<and> s ! 4 = CHR ''-''
      \<and> list_all isdigit (take 2 (drop 5 s)) \<and> s ! 7 = CHR ''-''
      \<and> list_all isdigit (drop 8 s))"

text \<open>The white-space-separated tokens of a text, in order.\<close>

lemma dropWhile_token_shorter:
  assumes "dropWhile isspace s \<noteq> []"
  shows "length (dropWhile (\<lambda>ch. \<not> isspace ch) (dropWhile isspace s)) < length s"
proof -
  from assms obtain x xs where r: "dropWhile isspace s = x # xs"
    by (cases "dropWhile isspace s") auto
  with hd_dropWhile [OF assms] have "\<not> isspace x"
    by simp
  with r have "dropWhile (\<lambda>ch. \<not> isspace ch) (dropWhile isspace s)
                 = dropWhile (\<lambda>ch. \<not> isspace ch) xs"
    by simp
  moreover have "length (dropWhile (\<lambda>ch. \<not> isspace ch) xs) \<le> length xs"
    by (rule length_dropWhile_le)
  moreover have "length (x # xs) \<le> length s"
    using length_dropWhile_le [of isspace s] r by simp
  ultimately show ?thesis by simp
qed

function tokens :: "string \<Rightarrow> string list" where
  "tokens s =
     (if dropWhile isspace s = [] then []
      else takeWhile (\<lambda>ch. \<not> isspace ch) (dropWhile isspace s)
             # tokens (dropWhile (\<lambda>ch. \<not> isspace ch) (dropWhile isspace s)))"
  by pat_completeness auto
termination
  by (relation "measure length") (simp_all add: dropWhile_token_shorter)

declare tokens.simps [simp del]

text \<open>The season in the words of the specification: when the lowered segment holds
  "born in", the token that follows it at once; otherwise the whole trimmed segment; and
  "unknown" when that is empty.\<close>

definition claimedSeason :: "string \<Rightarrow> string" where
  "claimedSeason part =
     (let season =
            (case find_str (toLower part) ''born in'' of
               Some pos \<Rightarrow>
                 (case tokens (drop (pos + length ''born in'') part) of [] \<Rightarrow> [] | t # ts \<Rightarrow> t)
             | None \<Rightarrow> trim part)
      in if season = [] then ''unknown'' else season)"


section \<open>Basic facts\<close>

lemma splitLoop_returns:
  "delimiter \<noteq> [] \<Longrightarrow> \<exists>ts. splitLoop v delimiter acc = Some ts"
proof (induction v delimiter acc rule: splitLoop.induct)
  case (1 remaining delimiter tokens)
  show ?case
  proof (cases "find_str remaining delimiter")
    case None
    with "1.prems" show ?thesis by (simp add: splitLoop.simps [of remaining])
  next
    case (Some pos)
    with "1.prems" "1.IH" show ?thesis by (simp add: splitLoop.simps [of remaining])
  qed
qed

lemma split_returns: "delimiter \<noteq> [] \<Longrightarrow> \<exists>ts. split v delimiter = Some ts"
  by (simp add: split_def splitLoop_returns)

lemma stoi_error: "stoi s = Inl e \<Longrightarrow> e = InvalidArgument ''stoi'' \<or> e = OutOfRange ''stoi''"
  by (auto simp: stoi_def split: prod.splits if_splits)

lemma parseWeight_error:
  "parseWeight p = Inl e \<Longrightarrow> e = InvalidArgument ''stoi'' \<or> e = OutOfRange ''stoi''"
  by (auto simp: parseWeight_def split: option.splits dest: stoi_error)

section \<open>The end-to-end example\<close>


section \<open>Birth dates\<close>

lemma wrapInt_fits: "fitsInt v \<Longrightarrow> wrapInt v = v"
  by (simp add: fitsInt_def INT_MIN_def INT_MAX_def wrapInt_def)

text \<open>
  C6. \<^verbatim>\<open>genBirthDay\<close> is a function of its three arguments alone. Let the age fit an \<^verbatim>\<open>int\<close>
  and, when the arrival date parses, let the arrival year minus the age fit an \<^verbatim>\<open>int\<close> as
  well. Then the birth year is the arrival year minus the age; the month and day are (3,15)
  for spring, (6,15) for summer, (9,15) for fall and for autumn, (12,15) for winter, the
  season being compared after lowering its case, and the arrival's own month and day for any
  other season; and an arrival date that does not parse gives the parser's error. So
  \<^verbatim>\<open>genBirthDay(5, "Winter", "2024-04-02")\<close> is \<^verbatim>\<open>2019-12-15\<close> and an unknown season gives
  \<^verbatim>\<open>2019-04-02\<close>.
\<close>

theorem genBirthDay_derivation:
  assumes "fitsInt a" and "\<forall>d. parseIsoDate arrival = Inr d \<longrightarrow> fitsInt (year d - a)"
  shows "genBirthDay a season arrival =
     (case parseIsoDate arrival of
        Inl e \<Rightarrow> Inl e
      | Inr d \<Rightarrow>
          Inr (formatIsoDate
                 (if toLower season = ''spring'' then \<lparr>year = year d - a, month = 3, day = 15\<rparr>
                  else if toLower season = ''summer'' then \<lparr>year = year d - a, month = 6, day = 15\<rparr>
                  else if toLower season = ''fall'' then \<lparr>year = year d - a, month = 9, day = 15\<rparr>
                  else if toLower season = ''autumn'' then \<lparr>year = year d - a, month = 9, day = 15\<rparr>
                  else if toLower season = ''winter'' then \<lparr>year = year d - a, month = 12, day = 15\<rparr>
                  else \<lparr>year = year d - a, month = month d, day = day d\<rparr>)))
   \<and> genBirthDay 5 ''Winter'' ''2024-04-02'' = Inr ''2019-12-15''
   \<and> genBirthDay 5 ''martian-season'' ''2024-04-02'' = Inr ''2019-04-02''"
proof (intro conjI)
  show "genBirthDay 5 ''Winter'' ''2024-04-02'' = Inr ''2019-12-15''"
    by code_simp
  show "genBirthDay 5 ''martian-season'' ''2024-04-02'' = Inr ''2019-04-02''"
    by code_simp
next
  show "genBirthDay a season arrival =
     (case parseIsoDate arrival of
        Inl e \<Rightarrow> Inl e
      | Inr d \<Rightarrow>
          Inr (formatIsoDate
                 (if toLower season = ''spring'' then \<lparr>year = year d - a, month = 3, day = 15\<rparr>
                  else if toLower season = ''summer'' then \<lparr>year = year d - a, month = 6, day = 15\<rparr>
                  else if toLower season = ''fall'' then \<lparr>year = year d - a, month = 9, day = 15\<rparr>
                  else if toLower season = ''autumn'' then \<lparr>year = year d - a, month = 9, day = 15\<rparr>
                  else if toLower season = ''winter'' then \<lparr>year = year d - a, month = 12, day = 15\<rparr>
                  else \<lparr>year = year d - a, month = month d, day = day d\<rparr>)))"
  proof (cases "parseIsoDate arrival")
    case (Inl e)
    then show ?thesis by (simp add: genBirthDay_def)
  next
    case (Inr d)
    with assms(2) have "fitsInt (year d - a)" by simp
    then have "wrapInt (year d - a) = year d - a" by (rule wrapInt_fits)
    with Inr show ?thesis
      by (simp add: genBirthDay_def seasonToDate_def Let_def)
  qed
qed

text \<open>The birth date of the animal of the end-to-end example: three years before
  \<^verbatim>\<open>2024-03-05\<close>, in spring.\<close>

theorem genBirthDay_derivation_witness:
  "fitsInt 3 \<and> parseIsoDate ''2024-03-05'' = Inr \<lparr>year = 2024, month = 3, day = 5\<rparr>
   \<and> fitsInt (2024 - 3)
   \<and> genBirthDay 3 ''Spring'' ''2024-03-05'' = Inr ''2021-03-15''"
proof -
  have h1: "fitsInt 3"
    by (simp add: fitsInt_def INT_MIN_def INT_MAX_def)
  have p: "parseIsoDate ''2024-03-05'' = Inr \<lparr>year = 2024, month = 3, day = 5\<rparr>"
    by code_simp
  have f: "fitsInt (2024 - 3)"
    by (simp add: fitsInt_def INT_MIN_def INT_MAX_def)
  from p f have h2: "\<forall>d. parseIsoDate ''2024-03-05'' = Inr d \<longrightarrow> fitsInt (year d - 3)"
    by auto
  have low: "toLower ''Spring'' = ''spring''"
    by code_simp
  have fmt: "formatIsoDate \<lparr>year = 2024 - 3, month = 3, day = 15\<rparr> = ''2021-03-15''"
    by code_simp
  from genBirthDay_derivation [OF h1 h2, of "''Spring''"]
  have "genBirthDay 3 ''Spring'' ''2024-03-05''
          = Inr (formatIsoDate \<lparr>year = 2024 - 3, month = 3, day = 15\<rparr>)"
    by (simp add: p low)
  with fmt h1 p f show ?thesis
    by simp
qed

text \<open>Outside that range the subtraction overflows: an age of \<open>-2^31\<close>, which the record
  parser accepts, wraps the birth year around.\<close>

lemma digitChar_values:
  "digitChar 0 = CHR ''0''" "digitChar 1 = CHR ''1''" "digitChar 2 = CHR ''2''"
  "digitChar 3 = CHR ''3''" "digitChar 4 = CHR ''4''" "digitChar 5 = CHR ''5''"
  "digitChar 6 = CHR ''6''" "digitChar 7 = CHR ''7''" "digitChar 8 = CHR ''8''"
  "digitChar 9 = CHR ''9''" "digitChar (Suc 0) = CHR ''1''"
  by code_simp+

lemma genBirthDay_wraps:
  "genBirthDay (- 2147483648) ''spring'' ''2024-04-02'' = Inr ''-2147481624-03-15''"
proof -
  have p: "parseIsoDate ''2024-04-02'' = Inr \<lparr>year = 2024, month = 4, day = 2\<rparr>"
    by code_simp
  have w: "wrapInt (2024 - (- 2147483648)) = - 2147481624"
    by (simp add: wrapInt_def)
  have low: "toLower ''spring'' = ''spring''"
    by code_simp
  have y: "showNat 2147481624 = ''2147481624''"
    by (simp add: showNat.simps digitChar_values)
  have m: "setw 2 CHR ''0'' (showInt 3) = ''03''" "setw 2 CHR ''0'' (showInt 15) = ''15''"
    by code_simp+
  have y4: "setw 4 CHR ''0'' (showInt (- 2147481624)) = ''-2147481624''"
    by (simp add: showInt_def y setw_def)
  have "formatIsoDate \<lparr>year = - 2147481624, month = 3, day = 15\<rparr> = ''-2147481624-03-15''"
    by (simp add: formatIsoDate_def m y4)
  with p w low show ?thesis
    by (simp add: genBirthDay_def seasonToDate_def Let_def)
qed

section \<open>The segment count of an arrival line\<close>

text \<open>
  C9. Splitting a line on \<^verbatim>\<open>", "\<close> always returns, and \<^verbatim>\<open>parseArrivalRow\<close> throws the error
  "Malformed arrival entry: " followed by the line exactly when the split has fewer than 6
  segments. With 6 or more segments no error of \<^verbatim>\<open>parseArrivalRow\<close> begins with
  "Malformed arrival entry": the check has passed and the segments are parsed.
\<close>

theorem parseArrivalRow_malformed_iff:
  "\<exists>parts. split line '', '' = Some parts
     \<and> (parseArrivalRow line = Inl (RuntimeError (''Malformed arrival entry: '' @ line)))
         = (length parts < 6)
     \<and> (\<exists>rest. parseArrivalRow line = Inl (RuntimeError (''Malformed arrival entry'' @ rest)))
         = (length parts < 6)"
proof -
  obtain parts where parts: "split line '', '' = Some parts"
    using split_returns [of "'', ''" line] by auto
  have short: "parseArrivalRow line = Inl (RuntimeError (''Malformed arrival entry: '' @ line))"
    if "length parts < 6"
    using that parts by (simp add: parseArrivalRow_def)
  have long: "parseArrivalRow line \<noteq> Inl (RuntimeError (''Malformed arrival entry'' @ rest))"
    if "\<not> length parts < 6" for rest
    using that parts
    by (auto simp: parseArrivalRow_def split: option.splits sum.splits dest: parseWeight_error)
  have a: "(parseArrivalRow line = Inl (RuntimeError (''Malformed arrival entry: '' @ line)))
         = (length parts < 6)"
    using short long [of "'': '' @ line"] by auto
  have b: "(\<exists>rest. parseArrivalRow line = Inl (RuntimeError (''Malformed arrival entry'' @ rest)))
         = (length parts < 6)"
  proof
    assume "\<exists>rest. parseArrivalRow line = Inl (RuntimeError (''Malformed arrival entry'' @ rest))"
    with long show "length parts < 6" by blast
  next
    assume "length parts < 6"
    from short [OF this]
    have "parseArrivalRow line = Inl (RuntimeError (''Malformed arrival entry'' @ ('': '' @ line)))"
      by simp
    then show "\<exists>rest. parseArrivalRow line = Inl (RuntimeError (''Malformed arrival entry'' @ rest))"
      by blast
  qed
  from parts a b show ?thesis by blast
qed

section \<open>Rendering and the habitat index\<close>

lemma renderHabitat_map:
  "snd (renderHabitat m h) = (case m h of None \<Rightarrow> m(h \<mapsto> []) | Some v \<Rightarrow> m)"
  by (simp add: renderHabitat_def subscript_def split: option.splits)

lemma renderReport_map:
  "snd (renderReport m hs) = (\<lambda>h. if m h = None \<and> h \<in> set hs then Some [] else m h)"
proof (induction hs arbitrary: m)
  case Nil
  show ?case by simp
next
  case (Cons x xs)
  have "snd (renderReport m (x # xs)) = snd (renderReport (snd (renderHabitat m x)) xs)"
    by (simp split: prod.splits)
  also have "\<dots> = (\<lambda>h. if snd (renderHabitat m x) h = None \<and> h \<in> set xs then Some []
                           else snd (renderHabitat m x) h)"
    by (rule Cons.IH)
  also have "\<dots> = (\<lambda>h. if m h = None \<and> h \<in> set (x # xs) then Some [] else m h)"
    by (rule ext) (auto simp: renderHabitat_map split: option.splits)
  finally show ?case .
qed

text \<open>
  C4 (as amended). Rendering reads the habitat index through \<^verbatim>\<open>operator[]\<close>, which inserts an
  empty sequence for a key that is missing. So the index after rendering is the index before
  it, with an empty sequence added for each of the four habitats that had no entry; every
  entry that existed is unchanged, and an index that holds all four habitats is left as it
  was.
\<close>

theorem renderReport_frame:
  "snd (renderReport m habitatOrder)
     = (\<lambda>h. if m h = None \<and> h \<in> set habitatOrder then Some [] else m h)"
  by (rule renderReport_map)

text \<open>
  C4, as stated, fails on a run without arrivals: rendering starts from the empty index and
  leaves an index that is not empty.
\<close>

theorem renderReport_modifies_empty_index:
  "snd (renderReport Map.empty habitatOrder) \<noteq> (Map.empty :: string \<rightharpoonup> Animal list)"
proof
  assume "snd (renderReport Map.empty habitatOrder) = (Map.empty :: string \<rightharpoonup> Animal list)"
  then have "snd (renderReport Map.empty habitatOrder) ''Lion Habitat''
               = (Map.empty :: string \<rightharpoonup> Animal list) ''Lion Habitat''"
    by simp
  then show False
    unfolding renderReport_map by (simp add: habitatOrder_def)
qed

section \<open>Aborting the run\<close>

lemma arrivalLoop_bad_line:
  "l \<in> set ls \<Longrightarrow> trim l \<noteq> [] \<Longrightarrow> isl (parseArrivalRow (trim l)) \<Longrightarrow> isl (arrivalLoop st ls)"
proof (induction ls arbitrary: st)
  case Nil
  then show ?case by simp
next
  case (Cons x xs)
  show ?case
  proof (cases "x = l")
    case True
    with Cons.prems show ?thesis
      by (auto simp: Let_def processArrival_def isl_def split: sum.splits)
  next
    case False
    with Cons.prems have "l \<in> set xs" by simp
    from Cons.IH [OF this Cons.prems(2,3)] show ?thesis
      by (auto simp: Let_def split: sum.splits)
  qed
qed


lemma main_cases:
  "main env =
     (case loadAnimalNames namesPath (namesFile env) of
        Inl e \<Rightarrow> (1, \<lparr>reportFile = None, cout = [], cerr = ''Fatal error: '' @ what e @ newline\<rparr>)
      | Inr loaded \<Rightarrow>
     (case arrivalsFile env of
        None \<Rightarrow> (1, \<lparr>reportFile = None, cout = [],
                      cerr = ''Fatal error: '' @ ''Unable to open arrivals file: '' @ arrivalsPath @ newline\<rparr>)
      | Some ls \<Rightarrow>
     (case arrivalLoop \<lparr>names = loaded, animals = [], animalsByHabitat = Map.empty,
                        idCounters = Map.empty, speciesCounts = Map.empty\<rparr> ls of
        Inl e \<Rightarrow> (1, \<lparr>reportFile = None, cout = [], cerr = ''Fatal error: '' @ what e @ newline\<rparr>)
      | Inr st \<Rightarrow>
          if reportWritable env
          then (0, \<lparr>reportFile = Some (fst (renderReport (animalsByHabitat st) habitatOrder)),
                    cout = ''Zoo population report written to '' @ reportPath @ newline,
                    cerr = []\<rparr>)
          else (1, \<lparr>reportFile = None, cout = [],
                    cerr = ''Fatal error: '' @ ''Unable to open report for writing: '' @ reportPath @ newline\<rparr>))))"
  by (simp add: main_def tryBlock_def split: sum.splits option.splits prod.splits)

text \<open>
  C5 (as amended). Let the names file load and the arrivals file open. If parsing any
  non-blank arrival line raises an error, the run exits with status 1, has not opened the
  report file and has printed one "Fatal error" line. More generally, whatever error the
  arrival loop raises, the run ends so, printing that error. If the loop raises no error and
  the report file can be opened for writing, the run exits with status 0 and the report is the
  rendering of the habitat index.
\<close>

theorem main_aborts_on_failing_line:
  assumes "loadAnimalNames namesPath (namesFile env) = Inr loaded"
    and "arrivalsFile env = Some ls"
  shows "((\<exists>l\<in>set ls. trim l \<noteq> [] \<and> isl (parseArrivalRow (trim l))) \<longrightarrow>
            fst (main env) = 1 \<and> reportFile (snd (main env)) = None
            \<and> (\<exists>e. cerr (snd (main env)) = ''Fatal error: '' @ what e @ newline))
       \<and> (\<forall>e. arrivalLoop \<lparr>names = loaded, animals = [], animalsByHabitat = Map.empty,
                            idCounters = Map.empty, speciesCounts = Map.empty\<rparr> ls = Inl e \<longrightarrow>
            main env = (1, \<lparr>reportFile = None, cout = [],
                            cerr = ''Fatal error: '' @ what e @ newline\<rparr>))
       \<and> (\<forall>st. arrivalLoop \<lparr>names = loaded, animals = [], animalsByHabitat = Map.empty,
                            idCounters = Map.empty, speciesCounts = Map.empty\<rparr> ls = Inr st
                 \<and> reportWritable env \<longrightarrow>
            fst (main env) = 0
            \<and> reportFile (snd (main env))
                = Some (fst (renderReport (animalsByHabitat st) habitatOrder)))"
proof (intro conjI impI allI)
  assume "\<exists>l\<in>set ls. trim l \<noteq> [] \<and> isl (parseArrivalRow (trim l))"
  then obtain l where "l \<in> set ls" "trim l \<noteq> []" "isl (parseArrivalRow (trim l))"
    by blast
  from arrivalLoop_bad_line [OF this]
  obtain e where e: "arrivalLoop \<lparr>names = loaded, animals = [], animalsByHabitat = Map.empty,
                        idCounters = Map.empty, speciesCounts = Map.empty\<rparr> ls = Inl e"
    by (auto simp: isl_def)
  from assms e show "fst (main env) = 1" by (simp add: main_cases)
  from assms e show "reportFile (snd (main env)) = None" by (simp add: main_cases)
  from assms e show "\<exists>e. cerr (snd (main env)) = ''Fatal error: '' @ what e @ newline"
    by (auto simp add: main_cases)
next
  fix e
  assume "arrivalLoop \<lparr>names = loaded, animals = [], animalsByHabitat = Map.empty,
                        idCounters = Map.empty, speciesCounts = Map.empty\<rparr> ls = Inl e"
  with assms show "main env = (1, \<lparr>reportFile = None, cout = [],
                            cerr = ''Fatal error: '' @ what e @ newline\<rparr>)"
    by (simp add: main_cases)
next
  fix st
  assume a: "arrivalLoop \<lparr>names = loaded, animals = [], animalsByHabitat = Map.empty,
                            idCounters = Map.empty, speciesCounts = Map.empty\<rparr> ls = Inr st
                 \<and> reportWritable env"
  with assms show "fst (main env) = 0" by (simp add: main_cases)
  from a assms show "reportFile (snd (main env))
                = Some (fst (renderReport (animalsByHabitat st) habitatOrder))"
    by (simp add: main_cases)
qed

text \<open>The run of C5 on a line with too few segments, and on the line of the end-to-end
  example.\<close>

theorem main_aborts_on_failing_line_witness:
  "fst (main \<lparr>namesFile = Some [], arrivalsFile = Some [''2024-03-05, 3 years old female hyena''],
              reportWritable = True\<rparr>) = 1
   \<and> reportFile (snd (main \<lparr>namesFile = Some [],
                            arrivalsFile = Some [''2024-03-05, 3 years old female hyena''],
                            reportWritable = True\<rparr>)) = None
   \<and> fst (main \<lparr>namesFile = Some [],
                arrivalsFile = Some [''2024-03-05, 3 years old female hyena, born in spring, tan color, 70 pounds, from Friguia Park, Tunisia''],
                reportWritable = True\<rparr>) = 0"
proof -
  let ?bad = "\<lparr>namesFile = Some [], arrivalsFile = Some [''2024-03-05, 3 years old female hyena''],
              reportWritable = True\<rparr>"
  let ?good = "\<lparr>namesFile = Some [],
                arrivalsFile = Some [''2024-03-05, 3 years old female hyena, born in spring, tan color, 70 pounds, from Friguia Park, Tunisia''],
                reportWritable = True\<rparr>"
  let ?init = "\<lparr>names = Map.empty, animals = [], animalsByHabitat = Map.empty,
                idCounters = Map.empty, speciesCounts = Map.empty\<rparr>"
  have n1: "loadAnimalNames namesPath (namesFile ?bad) = Inr Map.empty"
    by (simp add: loadAnimalNames_def)
  have a1: "arrivalsFile ?bad = Some [''2024-03-05, 3 years old female hyena'']"
    by simp
  have t: "trim ''2024-03-05, 3 years old female hyena'' \<noteq> []"
    by code_simp
  have p: "isl (parseArrivalRow (trim ''2024-03-05, 3 years old female hyena''))"
    by code_simp
  have bad: "\<exists>l\<in>set [''2024-03-05, 3 years old female hyena'']. trim l \<noteq> [] \<and> isl (parseArrivalRow (trim l))"
    using t p by simp
  have n2: "loadAnimalNames namesPath (namesFile ?good) = Inr Map.empty"
    by (simp add: loadAnimalNames_def)
  have a2: "arrivalsFile ?good = Some [''2024-03-05, 3 years old female hyena, born in spring, tan color, 70 pounds, from Friguia Park, Tunisia'']"
    by simp
  have "\<not> isl (arrivalLoop ?init [''2024-03-05, 3 years old female hyena, born in spring, tan color, 70 pounds, from Friguia Park, Tunisia''])"
    by code_simp
  then obtain st where st: "arrivalLoop ?init [''2024-03-05, 3 years old female hyena, born in spring, tan color, 70 pounds, from Friguia Park, Tunisia''] = Inr st"
    by (cases "arrivalLoop ?init [''2024-03-05, 3 years old female hyena, born in spring, tan color, 70 pounds, from Friguia Park, Tunisia'']") auto
  have w: "reportWritable ?good"
    by simp
  from main_aborts_on_failing_line [OF n1 a1] bad
  have "fst (main ?bad) = 1 \<and> reportFile (snd (main ?bad)) = None"
    by blast
  moreover from main_aborts_on_failing_line [OF n2 a2] st w
  have "fst (main ?good) = 0"
    by blast
  ultimately show ?thesis by blast
qed

text \<open>
  C5, as stated, fails in its last part. A line of an unsupported species parses, and the run
  exits with status 1 on it; and when every line is processed without an error but the report
  file cannot be opened, the run exits with status 1 as well.
\<close>

theorem main_exit_1_without_parse_error:
  "parseArrivalRow ''2024-03-05, 3 years old female zebra, born in spring, tan color, 70 pounds, from Friguia Park, Tunisia''
     = Inr \<lparr>arrivalDate = ''2024-03-05'', age = 3, sex = ''female'', species = ''zebra'',
            birthSeason = ''spring'', color = ''tan'', weight = 70,
            origin = ''Friguia Park, Tunisia''\<rparr>
   \<and> main \<lparr>namesFile = Some [''hyena: Kamari, Simba''],
           arrivalsFile = Some [''2024-03-05, 3 years old female zebra, born in spring, tan color, 70 pounds, from Friguia Park, Tunisia''],
           reportWritable = True\<rparr>
     = (1, \<lparr>reportFile = None, cout = [],
            cerr = ''Fatal error: Unsupported species: zebra'' @ newline\<rparr>)
   \<and> \<not> isl (arrivalLoop \<lparr>names = Map.empty, animals = [], animalsByHabitat = Map.empty,
                          idCounters = Map.empty, speciesCounts = Map.empty\<rparr>
               [''2024-03-05, 3 years old female hyena, born in spring, tan color, 70 pounds, from Friguia Park, Tunisia''])
   \<and> main \<lparr>namesFile = Some [],
           arrivalsFile = Some [''2024-03-05, 3 years old female hyena, born in spring, tan color, 70 pounds, from Friguia Park, Tunisia''],
           reportWritable = False\<rparr>
     = (1, \<lparr>reportFile = None, cout = [],
            cerr = ''Fatal error: Unable to open report for writing: zooPopulation.txt'' @ newline\<rparr>)"
proof (intro conjI)
  show "parseArrivalRow ''2024-03-05, 3 years old female zebra, born in spring, tan color, 70 pounds, from Friguia Park, Tunisia''
     = Inr \<lparr>arrivalDate = ''2024-03-05'', age = 3, sex = ''female'', species = ''zebra'',
            birthSeason = ''spring'', color = ''tan'', weight = 70,
            origin = ''Friguia Park, Tunisia''\<rparr>"
    by code_simp
  show "main \<lparr>namesFile = Some [''hyena: Kamari, Simba''],
           arrivalsFile = Some [''2024-03-05, 3 years old female zebra, born in spring, tan color, 70 pounds, from Friguia Park, Tunisia''],
           reportWritable = True\<rparr>
     = (1, \<lparr>reportFile = None, cout = [],
            cerr = ''Fatal error: Unsupported species: zebra'' @ newline\<rparr>)"
    by code_simp
  show "\<not> isl (arrivalLoop \<lparr>names = Map.empty, animals = [], animalsByHabitat = Map.empty,
                          idCounters = Map.empty, speciesCounts = Map.empty\<rparr>
               [''2024-03-05, 3 years old female hyena, born in spring, tan color, 70 pounds, from Friguia Park, Tunisia''])"
    by code_simp
  show "main \<lparr>namesFile = Some [],
           arrivalsFile = Some [''2024-03-05, 3 years old female hyena, born in spring, tan color, 70 pounds, from Friguia Park, Tunisia''],
           reportWritable = False\<rparr>
     = (1, \<lparr>reportFile = None, cout = [],
            cerr = ''Fatal error: Unable to open report for writing: zooPopulation.txt'' @ newline\<rparr>)"
    by code_simp
qed

section \<open>Unique identifiers\<close>

subsection \<open>Numbers written and read back\<close>

lemma decimalValue_snoc: "decimalValue (xs @ [c]) = decimalValue xs * 10 + digitValue c"
  by (simp add: decimalValue_def)

lemma digitValue_digitChar: "d < 10 \<Longrightarrow> digitValue (digitChar d) = int d"
  by (simp add: digitValue_def digitChar_def)

lemma decimalValue_showNat: "decimalValue (showNat n) = int n"
proof (induction n rule: showNat.induct)
  case (1 n)
  show ?case
  proof (cases "n < 10")
    case True
    then show ?thesis
      by (simp add: showNat.simps [of n] decimalValue_def digitValue_digitChar)
  next
    case False
    with "1.IH" have "decimalValue (showNat (n div 10)) = int (n div 10)"
      by simp
    moreover have "int n = int (n div 10) * 10 + int (n mod 10)"
    proof -
      have "int n = int (n div 10 * 10 + n mod 10)" by simp
      also have "\<dots> = int (n div 10) * 10 + int (n mod 10)"
        by (simp only: of_nat_add of_nat_mult of_nat_numeral)
      finally show ?thesis .
    qed
    ultimately show ?thesis
      using False by (simp add: showNat.simps [of n] decimalValue_snoc digitValue_digitChar)
  qed
qed

lemma decimalValue_zeros: "decimalValue (replicate k CHR ''0'' @ s) = decimalValue s"
proof (induction k)
  case 0
  show ?case by simp
next
  case (Suc k)
  have "decimalValue (CHR ''0'' # t) = decimalValue t" for t
    by (simp add: decimalValue_def digitValue_def)
  with Suc show ?case by simp
qed

lemma decimalValue_setw_showInt:
  "0 \<le> a \<Longrightarrow> decimalValue (setw w CHR ''0'' (showInt a)) = a"
  by (simp add: setw_def showInt_def decimalValue_zeros decimalValue_showNat)

lemma setw_showInt_inj:
  "0 \<le> a \<Longrightarrow> 0 \<le> b \<Longrightarrow> setw w CHR ''0'' (showInt a) = setw w CHR ''0'' (showInt b) \<Longrightarrow> a = b"
  by (metis decimalValue_setw_showInt)

lemma speciesPrefix_cases:
  "speciesPrefix sp = Inr p \<Longrightarrow> p = ''Hy'' \<or> p = ''Li'' \<or> p = ''Ti'' \<or> p = ''Be''"
  by (auto simp: speciesPrefix_def Let_def split: if_splits)

lemma speciesPrefix_length: "speciesPrefix sp = Inr p \<Longrightarrow> length p = 2"
  by (auto dest: speciesPrefix_cases)

lemma speciesPrefix_supported:
  "toLower sp \<in> {''hyena'', ''lion'', ''tiger'', ''bear''} \<Longrightarrow> \<exists>p. speciesPrefix sp = Inr p"
  by (auto simp: speciesPrefix_def Let_def)

lemma genUniqueId_Inr:
  "speciesPrefix sp = Inr p \<Longrightarrow>
     genUniqueId sp c
       = Inr (p @ setw 2 CHR ''0'' (showInt (counterOf c p + 1)), c(p \<mapsto> counterOf c p + 1))"
  by (auto simp: genUniqueId_def subscript_def counterOf_def Let_def split: option.splits)

lemma genUniqueId_Inl: "speciesPrefix sp = Inl e \<Longrightarrow> genUniqueId sp c = Inl e"
  by (simp add: genUniqueId_def)

lemma counterOf_upd: "counterOf (c(p \<mapsto> n)) q = (if q = p then n else counterOf c q)"
  by (simp add: counterOf_def)

lemma callsFor_Cons:
  "callsFor p (Suc k) (sp # sps) = (if speciesPrefix sp = Inr p then 1 else 0) + callsFor p k sps"
  by (simp add: callsFor_def)

lemma genUniqueIds_nth:
  "genUniqueIds sps c0 = Inr (ids, c1) \<Longrightarrow> i < length sps \<Longrightarrow>
     length ids = length sps \<and>
     (\<exists>p. speciesPrefix (sps ! i) = Inr p \<and>
          ids ! i = p @ setw 2 CHR ''0'' (showInt (counterOf c0 p + int (callsFor p (Suc i) sps))))"
proof (induction sps arbitrary: c0 ids i)
  case Nil
  then show ?case by simp
next
  case (Cons sp sps)
  from Cons.prems(1) obtain p0 where p0: "speciesPrefix sp = Inr p0"
    by (cases "speciesPrefix sp") (simp_all add: genUniqueId_Inl)
  let ?c = "c0(p0 \<mapsto> counterOf c0 p0 + 1)"
  from Cons.prems(1) p0 obtain uids
    where uids: "genUniqueIds sps ?c = Inr (uids, c1)"
      and ids: "ids = (p0 @ setw 2 CHR ''0'' (showInt (counterOf c0 p0 + 1))) # uids"
    by (auto simp: genUniqueId_Inr split: sum.splits)
  have len: "length uids = length sps"
  proof (cases sps)
    case Nil
    with uids show ?thesis by simp
  next
    case (Cons a as)
    then have "0 < length sps" by simp
    from Cons.IH [OF uids this] show ?thesis by simp
  qed
  show ?case
  proof (cases i)
    case 0
    with p0 ids len show ?thesis
      by (simp add: callsFor_def)
  next
    case (Suc j)
    with Cons.prems(2) have j: "j < length sps" by simp
    from Cons.IH [OF uids j] obtain p
      where p: "speciesPrefix (sps ! j) = Inr p"
        and nth: "uids ! j = p @ setw 2 CHR ''0'' (showInt (counterOf ?c p + int (callsFor p (Suc j) sps)))"
      by blast
    have "counterOf ?c p + int (callsFor p (Suc j) sps)
            = counterOf c0 p + int (callsFor p (Suc (Suc j)) (sp # sps))"
      using p0 by (auto simp: counterOf_upd callsFor_Cons)
    with p nth ids len Suc show ?thesis by simp
  qed
qed

lemma genUniqueIds_length: "genUniqueIds sps c0 = Inr (ids, c1) \<Longrightarrow> length ids = length sps"
  by (induction sps arbitrary: c0 ids) (auto split: sum.splits)

lemma genUniqueIds_supported:
  "list_all (\<lambda>sp. toLower sp \<in> {''hyena'', ''lion'', ''tiger'', ''bear''}) sps \<Longrightarrow>
     \<exists>ids c1. genUniqueIds sps c0 = Inr (ids, c1)"
proof (induction sps arbitrary: c0)
  case Nil
  show ?case by simp
next
  case (Cons sp sps)
  then obtain p where p: "speciesPrefix sp = Inr p"
    using speciesPrefix_supported [of sp] by auto
  from Cons obtain ids c1
    where "genUniqueIds sps (c0(p \<mapsto> counterOf c0 p + 1)) = Inr (ids, c1)"
    by fastforce
  with p show ?case by (simp add: genUniqueId_Inr)
qed

lemma callsFor_le: "k \<le> k' \<Longrightarrow> callsFor p k sps \<le> callsFor p k' sps"
proof -
  assume le: "k \<le> k'"
  have "take k' sps = take k (take k' sps) @ drop k (take k' sps)"
    by (rule append_take_drop_id [symmetric])
  also from le have "take k (take k' sps) = take k sps"
    by (simp add: min_def)
  finally have "take k' sps = take k sps @ drop k (take k' sps)" .
  then have "filter (\<lambda>sp. speciesPrefix sp = Inr p) (take k' sps)
               = filter (\<lambda>sp. speciesPrefix sp = Inr p) (take k sps)
                 @ filter (\<lambda>sp. speciesPrefix sp = Inr p) (drop k (take k' sps))"
    by (simp only: filter_append [symmetric])
  then show ?thesis
    by (simp add: callsFor_def)
qed

lemma callsFor_mono:
  assumes ij: "i < j" and j: "j < length sps" and p: "speciesPrefix (sps ! j) = Inr p"
  shows "callsFor p (Suc i) sps < callsFor p (Suc j) sps"
proof -
  have "take (Suc j) sps = take j sps @ [sps ! j]"
    using j by (simp add: take_Suc_conv_app_nth)
  then have a: "callsFor p (Suc j) sps = callsFor p j sps + 1"
    using p by (simp add: callsFor_def)
  from ij have "callsFor p (Suc i) sps \<le> callsFor p j sps"
    by (intro callsFor_le) simp
  with a show ?thesis by simp
qed

lemma genUniqueIds_distinct:
  assumes run: "genUniqueIds sps c0 = Inr (ids, c1)" and nonneg: "\<And>p. 0 \<le> counterOf c0 p"
  shows "distinct ids"
proof -
  have len: "length ids = length sps"
    using run by (rule genUniqueIds_length)
  have neq: "ids ! i \<noteq> ids ! j" if ij: "i < j" and j: "j < length ids" for i j
  proof -
    from genUniqueIds_nth [OF run, of i] ij j len obtain p
      where p: "speciesPrefix (sps ! i) = Inr p"
        and idi: "ids ! i = p @ setw 2 CHR ''0'' (showInt (counterOf c0 p + int (callsFor p (Suc i) sps)))"
      by auto
    from genUniqueIds_nth [OF run, of j] j len obtain q
      where q: "speciesPrefix (sps ! j) = Inr q"
        and idj: "ids ! j = q @ setw 2 CHR ''0'' (showInt (counterOf c0 q + int (callsFor q (Suc j) sps)))"
      by auto
    show ?thesis
    proof
      assume eq: "ids ! i = ids ! j"
      have "length p = length q"
        using p q by (simp add: speciesPrefix_length)
      moreover from eq idi idj
      have "p @ setw 2 CHR ''0'' (showInt (counterOf c0 p + int (callsFor p (Suc i) sps)))
            = q @ setw 2 CHR ''0'' (showInt (counterOf c0 q + int (callsFor q (Suc j) sps)))"
        by simp
      ultimately have both: "p = q \<and>
          setw 2 CHR ''0'' (showInt (counterOf c0 p + int (callsFor p (Suc i) sps)))
            = setw 2 CHR ''0'' (showInt (counterOf c0 q + int (callsFor q (Suc j) sps)))"
        using append_eq_append_conv [of p q] by blast
      then have pq: "p = q" by (rule conjunct1)
      from both
      have num': "setw 2 CHR ''0'' (showInt (counterOf c0 p + int (callsFor p (Suc i) sps)))
                  = setw 2 CHR ''0'' (showInt (counterOf c0 p + int (callsFor p (Suc j) sps)))"
        by auto
      have "0 \<le> counterOf c0 p + int (callsFor p (Suc i) sps)"
        and "0 \<le> counterOf c0 p + int (callsFor p (Suc j) sps)"
        using nonneg [of p] by simp_all
      from setw_showInt_inj [OF this num']
      have "callsFor p (Suc i) sps = callsFor p (Suc j) sps"
        by simp
      moreover from q pq have "speciesPrefix (sps ! j) = Inr p"
        by simp
      with ij j len have "callsFor p (Suc i) sps < callsFor p (Suc j) sps"
        by (intro callsFor_mono) simp_all
      ultimately show False by simp
    qed
  qed
  show ?thesis
    unfolding distinct_conv_nth
  proof (intro allI impI)
    fix i j
    assume "i < length ids" "j < length ids" "i \<noteq> j"
    then consider "i < j" | "j < i" by linarith
    then show "ids ! i \<noteq> ids ! j"
    proof cases
      case 1
      from neq [OF 1 \<open>j < length ids\<close>] show ?thesis .
    next
      case 2
      from neq [OF 2 \<open>i < length ids\<close>] show ?thesis by simp
    qed
  qed
qed

lemma showNat_nonempty: "showNat n \<noteq> []"
  by (simp add: showNat.simps [of n])

lemma setw_showInt_wide: "10 \<le> n \<Longrightarrow> setw 2 CHR ''0'' (showInt n) = showInt n"
proof -
  assume n: "10 \<le> n"
  then have "\<not> nat n < 10" by simp
  then have "showNat (nat n) = showNat (nat n div 10) @ [digitChar (nat n mod 10)]"
    by (simp add: showNat.simps [of "nat n"])
  moreover have "1 \<le> length (showNat (nat n div 10))"
    using showNat_nonempty [of "nat n div 10"] by (cases "showNat (nat n div 10)") simp_all
  ultimately have "2 \<le> length (showNat (nat n))"
    by simp
  with n show ?thesis
    by (simp add: setw_def showInt_def)
qed

lemma processArrival_id:
  "processArrival st line = Inr st' \<Longrightarrow>
     \<exists>sp uid a. genUniqueId sp (idCounters st) = Inr (uid, idCounters st')
        \<and> animals st' = animals st @ [a] \<and> m_uniqueId a = uid"
  by (auto simp: processArrival_def newAnimal_def Let_def
           split: sum.splits prod.splits option.splits)

lemma arrivalLoop_ids:
  "arrivalLoop st ls = Inr st' \<Longrightarrow>
     \<exists>sps ids. genUniqueIds sps (idCounters st) = Inr (ids, idCounters st')
        \<and> map m_uniqueId (animals st') = map m_uniqueId (animals st) @ ids"
proof (induction ls arbitrary: st)
  case Nil
  then have "genUniqueIds [] (idCounters st) = Inr ([], idCounters st')
        \<and> map m_uniqueId (animals st') = map m_uniqueId (animals st) @ []"
    by simp
  then show ?case by blast
next
  case (Cons raw rest)
  show ?case
  proof (cases "trim raw = []")
    case True
    with Cons.prems have "arrivalLoop st rest = Inr st'" by simp
    then show ?thesis by (rule Cons.IH)
  next
    case False
    with Cons.prems obtain st1
      where step: "processArrival st (trim raw) = Inr st1" and rest: "arrivalLoop st1 rest = Inr st'"
      by (auto simp: Let_def split: sum.splits)
    from processArrival_id [OF step] obtain sp uid a
      where g: "genUniqueId sp (idCounters st) = Inr (uid, idCounters st1)"
        and a: "animals st1 = animals st @ [a]" "m_uniqueId a = uid"
      by blast
    from Cons.IH [OF rest] obtain sps ids
      where gs: "genUniqueIds sps (idCounters st1) = Inr (ids, idCounters st')"
        and m: "map m_uniqueId (animals st') = map m_uniqueId (animals st1) @ ids"
      by blast
    from g gs have "genUniqueIds (sp # sps) (idCounters st) = Inr (uid # ids, idCounters st')"
      by simp
    moreover from m a have "map m_uniqueId (animals st') = map m_uniqueId (animals st) @ (uid # ids)"
      by simp
    ultimately show ?thesis by blast
  qed
qed

lemma run_ids_distinct:
  assumes "arrivalLoop \<lparr>names = loaded, animals = [], animalsByHabitat = Map.empty,
                        idCounters = Map.empty, speciesCounts = Map.empty\<rparr> ls = Inr st"
  shows "distinct (map m_uniqueId (animals st))"
proof -
  from arrivalLoop_ids [OF assms] obtain sps ids
    where "genUniqueIds sps Map.empty = Inr (ids, idCounters st)"
      and "map m_uniqueId (animals st) = ids"
    by auto
  moreover have "0 \<le> counterOf Map.empty p" for p
    by (simp add: counterOf_def)
  ultimately show ?thesis
    using genUniqueIds_distinct by blast
qed

subsection \<open>The sequence of identifiers\<close>

text \<open>
  C8. Let \<^verbatim>\<open>genUniqueId\<close> be called once for each species of a list of supported species (in
  any letter case), starting from empty counters, fewer than \<open>2^31\<close> times. Every call
  returns, and the identifier of call \<open>i\<close> is the fixed two-letter prefix of its species
  followed by the number \<open>k\<close>, zero-padded to two digits, where \<open>k\<close> counts the calls for
  that prefix up to and including call \<open>i\<close>: so the numbers of one prefix are 1, 2, 3, ...
  without a gap, and the identifiers are pairwise distinct. For any supported species the
  first call yields the prefix followed by 01 and the second the prefix followed by 02.
\<close>

theorem genUniqueId_sequence:
  assumes supported: "list_all (\<lambda>s. toLower s \<in> {''hyena'', ''lion'', ''tiger'', ''bear''}) sps"
    and sp: "toLower sp \<in> {''hyena'', ''lion'', ''tiger'', ''bear''}"
    and bound: "length sps < 2 ^ 31"
  shows "(\<exists>ids counters.
            genUniqueIds sps Map.empty = Inr (ids, counters) \<and> length ids = length sps
            \<and> distinct ids
            \<and> (\<forall>i<length sps. \<exists>prefix.
                  speciesPrefix (sps ! i) = Inr prefix
                  \<and> prefix \<in> {''Hy'', ''Li'', ''Ti'', ''Be''}
                  \<and> ids ! i = prefix @ setw 2 CHR ''0'' (showInt (int (callsFor prefix (Suc i) sps)))))
       \<and> (\<exists>prefix counters1 counters2.
            speciesPrefix sp = Inr prefix
            \<and> genUniqueId sp Map.empty = Inr (prefix @ ''01'', counters1)
            \<and> genUniqueId sp counters1 = Inr (prefix @ ''02'', counters2))"
proof (rule conjI)
  have zero: "counterOf Map.empty p = 0" for p
    by (simp add: counterOf_def)
  from genUniqueIds_supported [OF supported] obtain ids c1
    where run: "genUniqueIds sps Map.empty = Inr (ids, c1)"
    by blast
  have len: "length ids = length sps"
    using run by (rule genUniqueIds_length)
  have dist: "distinct ids"
    using run by (rule genUniqueIds_distinct) (simp add: zero)
  have nth: "\<exists>prefix. speciesPrefix (sps ! i) = Inr prefix
                  \<and> prefix \<in> {''Hy'', ''Li'', ''Ti'', ''Be''}
                  \<and> ids ! i = prefix @ setw 2 CHR ''0'' (showInt (int (callsFor prefix (Suc i) sps)))"
    if i: "i < length sps" for i
  proof -
    from genUniqueIds_nth [OF run i] obtain p
      where p: "speciesPrefix (sps ! i) = Inr p"
        and "ids ! i = p @ setw 2 CHR ''0'' (showInt (counterOf Map.empty p + int (callsFor p (Suc i) sps)))"
      by blast
    then have "ids ! i = p @ setw 2 CHR ''0'' (showInt (int (callsFor p (Suc i) sps)))"
      by (simp add: zero)
    moreover from speciesPrefix_cases [OF p] have "p \<in> {''Hy'', ''Li'', ''Ti'', ''Be''}"
      by blast
    ultimately show ?thesis using p by blast
  qed
  from run len dist nth
  show "\<exists>ids counters.
            genUniqueIds sps Map.empty = Inr (ids, counters) \<and> length ids = length sps
            \<and> distinct ids
            \<and> (\<forall>i<length sps. \<exists>prefix.
                  speciesPrefix (sps ! i) = Inr prefix
                  \<and> prefix \<in> {''Hy'', ''Li'', ''Ti'', ''Be''}
                  \<and> ids ! i = prefix @ setw 2 CHR ''0'' (showInt (int (callsFor prefix (Suc i) sps))))"
    by blast
next
  from speciesPrefix_supported [OF sp] obtain p where p: "speciesPrefix sp = Inr p"
    by blast
  have one: "setw 2 CHR ''0'' (showInt 1) = ''01''"
    by code_simp
  have two: "setw 2 CHR ''0'' (showInt 2) = ''02''"
    by code_simp
  let ?c1 = "Map.empty(p \<mapsto> (1::int))"
  have "genUniqueId sp Map.empty = Inr (p @ ''01'', ?c1)"
    using genUniqueId_Inr [OF p, of Map.empty] one by (simp add: counterOf_def)
  moreover have "genUniqueId sp ?c1 = Inr (p @ ''02'', ?c1(p \<mapsto> 2))"
    using genUniqueId_Inr [OF p, of ?c1] two by (simp add: counterOf_def)
  ultimately show "\<exists>prefix counters1 counters2.
            speciesPrefix sp = Inr prefix
            \<and> genUniqueId sp Map.empty = Inr (prefix @ ''01'', counters1)
            \<and> genUniqueId sp counters1 = Inr (prefix @ ''02'', counters2)"
    using p by blast
qed

text \<open>Three calls, two of them for hyenas: the third identifier is \<^verbatim>\<open>Hy02\<close>.\<close>

theorem genUniqueId_sequence_witness:
  "\<exists>ids counters.
     genUniqueIds [''hyena'', ''Lion'', ''HYENA''] Map.empty = Inr (ids, counters)
     \<and> length ids = 3 \<and> distinct ids \<and> ids ! 2 = ''Hy02''"
proof -
  let ?sps = "[''hyena'', ''Lion'', ''HYENA'']"
  have supported: "list_all (\<lambda>s. toLower s \<in> {''hyena'', ''lion'', ''tiger'', ''bear''}) ?sps"
    by code_simp
  have sp: "toLower ''tiger'' \<in> {''hyena'', ''lion'', ''tiger'', ''bear''}"
    by code_simp
  have bound: "length ?sps < 2 ^ 31"
    by simp
  from genUniqueId_sequence [OF supported sp bound] obtain ids counters
    where run: "genUniqueIds ?sps Map.empty = Inr (ids, counters)"
      and len: "length ids = length ?sps" and dist: "distinct ids"
      and nth: "\<forall>i<length ?sps. \<exists>prefix.
                  speciesPrefix (?sps ! i) = Inr prefix
                  \<and> prefix \<in> {''Hy'', ''Li'', ''Ti'', ''Be''}
                  \<and> ids ! i = prefix @ setw 2 CHR ''0'' (showInt (int (callsFor prefix (Suc i) ?sps)))"
    by blast
  have "(2::nat) < length ?sps" by simp
  with nth obtain prefix
    where p: "speciesPrefix (?sps ! 2) = Inr prefix"
      and id2: "ids ! 2 = prefix @ setw 2 CHR ''0'' (showInt (int (callsFor prefix (Suc 2) ?sps)))"
    by blast
  have "speciesPrefix (?sps ! 2) = Inr ''Hy''"
    by code_simp
  with p have prefix: "prefix = ''Hy''"
    by simp
  have "''Hy'' @ setw 2 CHR ''0'' (showInt (int (callsFor ''Hy'' (Suc 2) ?sps))) = ''Hy02''"
    by code_simp
  with id2 prefix have "ids ! 2 = ''Hy02''"
    by simp
  with run len dist show ?thesis
    by simp
qed

text \<open>
  C10. The width 2 is a minimum. In any sequence of fewer than \<open>2^31\<close> calls from empty
  counters that returns, the digits after the two-letter prefix of each identifier read
  back as the number of the call among those of its prefix, a number of two or more digits is
  written out in full, and the identifiers are pairwise distinct. The hundredth call for
  hyenas yields \<^verbatim>\<open>Hy100\<close>.
\<close>

theorem genUniqueId_no_truncation:
  assumes run: "genUniqueIds sps Map.empty = Inr (ids, counters)"
    and bound: "length sps < 2 ^ 31"
  shows "distinct ids
       \<and> (\<forall>i<length ids. \<exists>prefix.
             speciesPrefix (sps ! i) = Inr prefix
             \<and> ids ! i = prefix @ setw 2 CHR ''0'' (showInt (int (callsFor prefix (Suc i) sps)))
             \<and> decimalValue (drop 2 (ids ! i)) = int (callsFor prefix (Suc i) sps)
             \<and> (10 \<le> callsFor prefix (Suc i) sps \<longrightarrow>
                  ids ! i = prefix @ showInt (int (callsFor prefix (Suc i) sps))))
       \<and> (\<exists>ids100 counters100.
             genUniqueIds (replicate 100 ''hyena'') Map.empty = Inr (ids100, counters100)
             \<and> ids100 ! 99 = ''Hy100'')"
proof (intro conjI)
  have zero: "counterOf Map.empty p = 0" for p
    by (simp add: counterOf_def)
  show "distinct ids"
    using run by (rule genUniqueIds_distinct) (simp add: zero)
  have len: "length ids = length sps"
    using run by (rule genUniqueIds_length)
  show "\<forall>i<length ids. \<exists>prefix.
             speciesPrefix (sps ! i) = Inr prefix
             \<and> ids ! i = prefix @ setw 2 CHR ''0'' (showInt (int (callsFor prefix (Suc i) sps)))
             \<and> decimalValue (drop 2 (ids ! i)) = int (callsFor prefix (Suc i) sps)
             \<and> (10 \<le> callsFor prefix (Suc i) sps \<longrightarrow>
                  ids ! i = prefix @ showInt (int (callsFor prefix (Suc i) sps)))"
  proof (intro allI impI)
    fix i
    assume "i < length ids"
    with len have i: "i < length sps" by simp
    from genUniqueIds_nth [OF run i] obtain p
      where p: "speciesPrefix (sps ! i) = Inr p"
        and "ids ! i = p @ setw 2 CHR ''0'' (showInt (counterOf Map.empty p + int (callsFor p (Suc i) sps)))"
      by blast
    then have idi: "ids ! i = p @ setw 2 CHR ''0'' (showInt (int (callsFor p (Suc i) sps)))"
      by (simp add: zero)
    from speciesPrefix_length [OF p] idi
    have "drop 2 (ids ! i) = setw 2 CHR ''0'' (showInt (int (callsFor p (Suc i) sps)))"
      by simp
    then have dv: "decimalValue (drop 2 (ids ! i)) = int (callsFor p (Suc i) sps)"
      by (simp add: decimalValue_setw_showInt)
    have wide: "ids ! i = p @ showInt (int (callsFor p (Suc i) sps))"
      if "10 \<le> callsFor p (Suc i) sps"
      using that idi setw_showInt_wide [of "int (callsFor p (Suc i) sps)"] by simp
    from p idi dv wide
    show "\<exists>prefix.
             speciesPrefix (sps ! i) = Inr prefix
             \<and> ids ! i = prefix @ setw 2 CHR ''0'' (showInt (int (callsFor prefix (Suc i) sps)))
             \<and> decimalValue (drop 2 (ids ! i)) = int (callsFor prefix (Suc i) sps)
             \<and> (10 \<le> callsFor prefix (Suc i) sps \<longrightarrow>
                  ids ! i = prefix @ showInt (int (callsFor prefix (Suc i) sps)))"
      by blast
  qed
  show "\<exists>ids100 counters100.
             genUniqueIds (replicate 100 ''hyena'') Map.empty = Inr (ids100, counters100)
             \<and> ids100 ! 99 = ''Hy100''"
  proof -
    have "list_all (\<lambda>s. toLower s \<in> {''hyena'', ''lion'', ''tiger'', ''bear''}) (replicate 100 ''hyena'')"
      by (simp add: list_all_iff toLower_def tolower_def)
    from genUniqueIds_supported [OF this] obtain ids100 c100
      where r: "genUniqueIds (replicate 100 ''hyena'') Map.empty = Inr (ids100, c100)"
      by blast
    have hy: "speciesPrefix ''hyena'' = Inr ''Hy''"
      by code_simp
    have "(99::nat) < length (replicate 100 ''hyena'')"
      by simp
    from genUniqueIds_nth [OF r this] hy
    have "ids100 ! 99 = ''Hy'' @ setw 2 CHR ''0''
            (showInt (int (callsFor ''Hy'' (Suc 99) (replicate 100 ''hyena''))))"
      by (simp add: zero)
    moreover have "callsFor ''Hy'' (Suc 99) (replicate 100 ''hyena'') = 100"
      using hy by (simp add: callsFor_def)
    moreover have "setw 2 CHR ''0'' (showInt 100) = ''100''"
      by code_simp
    ultimately have "ids100 ! 99 = ''Hy100''"
      by simp
    with r show ?thesis by blast
  qed
qed

text \<open>The three calls above, with the counters they leave.\<close>

theorem genUniqueId_no_truncation_witness:
  "distinct [''Hy01'', ''Li01'', ''Hy02'']
   \<and> genUniqueIds [''hyena'', ''Lion'', ''HYENA''] Map.empty
       = Inr ([''Hy01'', ''Li01'', ''Hy02''], [''Hy'' \<mapsto> 2, ''Li'' \<mapsto> 1])"
proof -
  have hy: "speciesPrefix ''hyena'' = Inr ''Hy''" by code_simp
  have li: "speciesPrefix ''Lion'' = Inr ''Li''" by code_simp
  have hy2: "speciesPrefix ''HYENA'' = Inr ''Hy''" by code_simp
  have one: "setw 2 CHR ''0'' (showInt 1) = ''01''" by code_simp
  have two: "setw 2 CHR ''0'' (showInt 2) = ''02''" by code_simp
  have neq: "''Li'' \<noteq> ''Hy''" by simp
  have run: "genUniqueIds [''hyena'', ''Lion'', ''HYENA''] Map.empty
       = Inr ([''Hy01'', ''Li01'', ''Hy02''], [''Hy'' \<mapsto> 2, ''Li'' \<mapsto> 1])"
    using one two neq
    by (simp add: genUniqueId_Inr [OF hy] genUniqueId_Inr [OF li] genUniqueId_Inr [OF hy2]
          counterOf_def fun_upd_twist)
  have "length [''hyena'', ''Lion'', ''HYENA''] < 2 ^ 31"
    by simp
  from genUniqueId_no_truncation [OF run this] run show ?thesis
    by blast
qed

section \<open>Parsing dates\<close>

subsection \<open>What the extractions accept\<close>

lemma isdigit_not_space: "isdigit c \<Longrightarrow> \<not> isspace c"
  by (auto simp: isdigit_def isspace_def)

lemma isdigit_not_sign: "isdigit c \<Longrightarrow> c \<noteq> CHR ''-'' \<and> c \<noteq> CHR ''+''"
  by (auto simp: isdigit_def)

lemma sign_not_space: "\<not> isspace CHR ''-''" "\<not> isspace CHR ''+''"
  by (simp_all add: isspace_def)

lemma sign_not_digit: "\<not> isdigit CHR ''-''" "\<not> isdigit CHR ''+''"
  by (simp_all add: isdigit_def)

lemma dropWhile_prefix:
  "list_all P w \<Longrightarrow> r = [] \<or> \<not> P (hd r) \<Longrightarrow> dropWhile P (w @ r) = r"
  by (cases r) (auto simp: list_all_iff dropWhile_append2)

lemma takeWhile_prefix:
  "list_all P w \<Longrightarrow> r = [] \<or> \<not> P (hd r) \<Longrightarrow> takeWhile P (w @ r) = w"
  by (cases r) (auto simp: list_all_iff takeWhile_append2)

lemma noDigitAhead_iff: "noDigitAhead rest = (rest = [] \<or> \<not> isdigit (hd rest))"
  by (cases rest) (simp_all add: noDigitAhead_def)

lemma scanDecimal_digits:
  assumes ds: "list_all isdigit ds" "ds \<noteq> []" and rest: "noDigitAhead rest"
    and w: "list_all isspace w"
  shows "scanDecimal (w @ ds @ rest) = (ds, decimalValue ds, rest)"
proof -
  from ds obtain c cs where c: "ds = c # cs" "isdigit c"
    by (cases ds) auto
  then have hd: "\<not> isspace (hd (ds @ rest))" "hd (ds @ rest) \<noteq> CHR ''-''"
      "hd (ds @ rest) \<noteq> CHR ''+''" "ds @ rest \<noteq> []"
    using isdigit_not_space isdigit_not_sign by auto
  then have skip: "dropWhile isspace (w @ ds @ rest) = ds @ rest"
    using w by (intro dropWhile_prefix) simp_all
  from rest have r: "rest = [] \<or> \<not> isdigit (hd rest)"
    by (simp add: noDigitAhead_iff)
  have t: "takeWhile isdigit (ds @ rest) = ds"
    using ds(1) r by (rule takeWhile_prefix)
  have d: "dropWhile isdigit (ds @ rest) = rest"
    using ds(1) r by (rule dropWhile_prefix)
  from hd show ?thesis
    unfolding scanDecimal_def skip Let_def by (simp add: t d)
qed

lemma scanDecimal_signed:
  assumes ds: "list_all isdigit ds" and rest: "noDigitAhead rest"
    and w: "list_all isspace w" and sgn: "sg = CHR ''-'' \<or> sg = CHR ''+''"
  shows "scanDecimal (w @ (sg # ds) @ rest)
           = (ds, if sg = CHR ''-'' then - decimalValue ds else decimalValue ds, rest)"
proof -
  from sgn have "\<not> isspace sg"
    using sign_not_space by auto
  then have skip: "dropWhile isspace (w @ (sg # ds) @ rest) = sg # ds @ rest"
    using w dropWhile_prefix [of isspace w "sg # ds @ rest"] by simp
  from rest have r: "rest = [] \<or> \<not> isdigit (hd rest)"
    by (simp add: noDigitAhead_iff)
  have t: "takeWhile isdigit (ds @ rest) = ds"
    using ds r by (rule takeWhile_prefix)
  have d: "dropWhile isdigit (ds @ rest) = rest"
    using ds r by (rule dropWhile_prefix)
  from sgn show ?thesis
    unfolding scanDecimal_def skip Let_def by (auto simp: t d)
qed

lemma readInt_complete:
  assumes w: "list_all isspace w" and n: "signedDigits n" and rest: "noDigitAhead rest"
    and fits: "fitsInt (signedValue n)"
  shows "readInt (w @ n @ rest) = Some (signedValue n, rest)"
proof -
  from n obtain c cs where c: "n = c # cs"
    by (cases n) (simp_all add: signedDigits_def)
  show ?thesis
  proof (cases "c = CHR ''-'' \<or> c = CHR ''+''")
    case True
    with n c have cs: "cs \<noteq> []" "list_all isdigit cs"
      by (simp_all add: signedDigits_def)
    from scanDecimal_signed [OF cs(2) rest w True] c
    have "scanDecimal (w @ n @ rest)
            = (cs, if c = CHR ''-'' then - decimalValue cs else decimalValue cs, rest)"
      by simp
    moreover from True c have "signedValue n = (if c = CHR ''-'' then - decimalValue cs else decimalValue cs)"
      by (auto simp: signedValue_def)
    ultimately show ?thesis
      using fits cs by (auto simp: readInt_def fitsInt_def)
  next
    case False
    with n c have ds: "list_all isdigit n" "n \<noteq> []"
      by (simp_all add: signedDigits_def)
    from False c have "signedValue n = decimalValue n"
      by (simp add: signedValue_def)
    with scanDecimal_digits [OF ds rest w] fits ds show ?thesis
      by (auto simp: readInt_def fitsInt_def)
  qed
qed

lemma readInt_sound:
  assumes "readInt s = Some (v, rest)"
  shows "\<exists>w n. s = w @ n @ rest \<and> list_all isspace w \<and> signedDigits n \<and> noDigitAhead rest
           \<and> v = signedValue n \<and> fitsInt v"
proof -
  let ?w = "takeWhile isspace s"
  let ?r = "dropWhile isspace s"
  let ?sg = "?r \<noteq> [] \<and> (hd ?r = CHR ''-'' \<or> hd ?r = CHR ''+'')"
  let ?r1 = "if ?sg then tl ?r else ?r"
  let ?ds = "takeWhile isdigit ?r1"
  let ?n = "(if ?sg then [hd ?r] else []) @ ?ds"
  from assms have ne: "?ds \<noteq> []" and rest: "rest = dropWhile isdigit ?r1"
    and v: "v = (if ?r \<noteq> [] \<and> hd ?r = CHR ''-'' then - decimalValue ?ds else decimalValue ?ds)"
    and fits: "fitsInt v"
    by (auto simp: readInt_def scanDecimal_def Let_def fitsInt_def split: if_splits)
  have s: "s = ?w @ ?n @ rest"
  proof -
    have "?r = (if ?sg then [hd ?r] else []) @ ?r1"
      by auto
    also have "?r1 = ?ds @ rest"
      unfolding rest by simp
    finally have "?r = ?n @ rest"
      by simp
    then have "?w @ ?r = ?w @ ?n @ rest"
      by (rule arg_cong)
    then show ?thesis by simp
  qed
  have w: "list_all isspace ?w"
    by (simp add: list_all_iff) (meson set_takeWhileD)
  have dig: "list_all isdigit ?ds"
    by (simp add: list_all_iff) (meson set_takeWhileD)
  have n: "signedDigits ?n"
  proof (cases ?sg)
    case True
    with ne dig show ?thesis by (auto simp: signedDigits_def)
  next
    case False
    from ne obtain c cs where c: "?ds = c # cs"
      by (cases ?ds) auto
    with dig have "isdigit c" by simp
    with isdigit_not_sign [of c] c dig False show ?thesis
      by (simp add: signedDigits_def)
  qed
  have nd: "noDigitAhead rest"
    unfolding rest noDigitAhead_iff using hd_dropWhile [of isdigit ?r1] by blast
  have val: "v = signedValue ?n"
  proof (cases ?sg)
    case True
    with v show ?thesis by (auto simp: signedValue_def)
  next
    case False
    from ne obtain c cs where c: "?ds = c # cs"
      by (cases ?ds) auto
    with dig have "isdigit c" by simp
    with isdigit_not_sign [of c] c False v show ?thesis
      by (auto simp: signedValue_def)
  qed
  from s w n nd val fits show ?thesis by blast
qed

lemma readChar_complete:
  "list_all isspace w \<Longrightarrow> \<not> isspace c \<Longrightarrow> readChar (w @ c # rest) = Some (c, rest)"
  using dropWhile_prefix [of isspace w "c # rest"] by (simp add: readChar_def)

lemma readChar_sound:
  assumes "readChar s = Some (c, rest)"
  shows "\<exists>w. s = w @ c # rest \<and> list_all isspace w \<and> \<not> isspace c"
proof -
  from assms have d: "dropWhile isspace s = c # rest"
    by (simp add: readChar_def split: list.splits)
  have "s = takeWhile isspace s @ dropWhile isspace s"
    by simp
  with d have "s = takeWhile isspace s @ c # rest"
    by simp
  moreover have "list_all isspace (takeWhile isspace s)"
    by (simp add: list_all_iff) (meson set_takeWhileD)
  moreover from d have "\<not> isspace c"
    using hd_dropWhile [of isspace s] by auto
  ultimately show ?thesis by blast
qed

lemma noDigitAhead_sep:
  "list_all isspace w \<Longrightarrow> noDigitAhead (w @ CHR ''-'' # t)"
  using isdigit_not_space by (cases w) (auto simp: noDigitAhead_def sign_not_digit)

lemma parseIsoDate_complete:
  assumes ws: "list_all isspace w1" "list_all isspace w2" "list_all isspace w3"
      "list_all isspace w4" "list_all isspace w5"
    and ns: "signedDigits n1" "signedDigits n2" "signedDigits n3"
    and fits: "fitsInt (signedValue n1)" "fitsInt (signedValue n2)" "fitsInt (signedValue n3)"
    and rest: "noDigitAhead rest"
  shows "parseIsoDate (w1 @ n1 @ w2 @ ''-'' @ w3 @ n2 @ w4 @ ''-'' @ w5 @ n3 @ rest)
           = Inr \<lparr>year = signedValue n1, month = signedValue n2, day = signedValue n3\<rparr>"
proof -
  let ?r4 = "w5 @ n3 @ rest"
  let ?r3 = "w4 @ CHR ''-'' # ?r4"
  let ?r2 = "w3 @ n2 @ ?r3"
  let ?r1 = "w2 @ CHR ''-'' # ?r2"
  have a: "readInt (w1 @ n1 @ ?r1) = Some (signedValue n1, ?r1)"
    using ws(1) ns(1) noDigitAhead_sep [OF ws(2)] fits(1) by (rule readInt_complete)
  have b: "readChar ?r1 = Some (CHR ''-'', ?r2)"
    using ws(2) sign_not_space(1) by (rule readChar_complete)
  have c: "readInt ?r2 = Some (signedValue n2, ?r3)"
    using ws(3) ns(2) noDigitAhead_sep [OF ws(4)] fits(2) by (rule readInt_complete)
  have d: "readChar ?r3 = Some (CHR ''-'', ?r4)"
    using ws(4) sign_not_space(1) by (rule readChar_complete)
  have e: "readInt ?r4 = Some (signedValue n3, rest)"
    using ws(5) ns(3) rest fits(3) by (rule readInt_complete)
  have "parseIsoDate (w1 @ n1 @ ?r1)
          = Inr \<lparr>year = signedValue n1, month = signedValue n2, day = signedValue n3\<rparr>"
    unfolding parseIsoDate_def by (simp add: a b c d e)
  then show ?thesis by simp
qed

lemma parseIsoDate_sound:
  assumes "parseIsoDate s = Inr dt"
  shows "\<exists>w1 n1 w2 w3 n2 w4 w5 n3 rest.
           s = w1 @ n1 @ w2 @ ''-'' @ w3 @ n2 @ w4 @ ''-'' @ w5 @ n3 @ rest
           \<and> list_all isspace w1 \<and> list_all isspace w2 \<and> list_all isspace w3
           \<and> list_all isspace w4 \<and> list_all isspace w5
           \<and> signedDigits n1 \<and> signedDigits n2 \<and> signedDigits n3
           \<and> fitsInt (signedValue n1) \<and> fitsInt (signedValue n2) \<and> fitsInt (signedValue n3)
           \<and> noDigitAhead rest
           \<and> dt = \<lparr>year = signedValue n1, month = signedValue n2, day = signedValue n3\<rparr>"
proof -
  from assms obtain y r1 dash1 r2 m r3 dash2 r4 d r5
    where a: "readInt s = Some (y, r1)" and b: "readChar r1 = Some (dash1, r2)"
      and c: "readInt r2 = Some (m, r3)" and d: "readChar r3 = Some (dash2, r4)"
      and e: "readInt r4 = Some (d, r5)"
      and dash: "dash1 = CHR ''-''" "dash2 = CHR ''-''"
      and dt: "dt = \<lparr>year = y, month = m, day = d\<rparr>"
    by (auto simp: parseIsoDate_def split: option.splits if_splits bind_splits)
  from readInt_sound [OF a] obtain w1 n1
    where 1: "s = w1 @ n1 @ r1" "list_all isspace w1" "signedDigits n1"
      "y = signedValue n1" "fitsInt y"
    by blast
  from readChar_sound [OF b] dash obtain w2
    where 2: "r1 = w2 @ CHR ''-'' # r2" "list_all isspace w2"
    by blast
  from readInt_sound [OF c] obtain w3 n2
    where 3: "r2 = w3 @ n2 @ r3" "list_all isspace w3" "signedDigits n2"
      "m = signedValue n2" "fitsInt m"
    by blast
  from readChar_sound [OF d] dash obtain w4
    where 4: "r3 = w4 @ CHR ''-'' # r4" "list_all isspace w4"
    by blast
  from readInt_sound [OF e] obtain w5 n3
    where 5: "r4 = w5 @ n3 @ r5" "list_all isspace w5" "signedDigits n3"
      "d = signedValue n3" "fitsInt d" "noDigitAhead r5"
    by blast
  have "s = w1 @ n1 @ w2 @ ''-'' @ w3 @ n2 @ w4 @ ''-'' @ w5 @ n3 @ r5"
    using 1(1) 2(1) 3(1) 4(1) 5(1) by simp
  with 1 2 3 4 5 dt show ?thesis
    by blast
qed

lemma parseIsoDate_error:
  "parseIsoDate s = Inl e \<Longrightarrow> e = RuntimeError (''Invalid ISO date: '' @ s)"
  by (auto simp: parseIsoDate_def split: option.splits if_splits)

text \<open>
  C3 (as amended). \<^verbatim>\<open>parseIsoDate\<close> returns a date exactly for the inputs made of an integer, a
  \<^verbatim>\<open>-\<close>, an integer, a \<^verbatim>\<open>-\<close> and an integer, where each integer is an optional sign and digits
  and fits an \<^verbatim>\<open>int\<close>, white space may stand in front of each integer and each \<^verbatim>\<open>-\<close>, and
  any text that does not begin with a digit may follow the third integer; the date holds the
  three values as they are, with no check of their range (month 13 is accepted). On every
  other input it throws the error "Invalid ISO date: " followed by the input: so when a
  separator is missing or is not \<^verbatim>\<open>-\<close>, and when a field has no digits.
\<close>

theorem parseIsoDate_accepts_iff:
  "(parseIsoDate s = Inr dt) =
     (\<exists>w1 n1 w2 w3 n2 w4 w5 n3 rest.
        s = w1 @ n1 @ w2 @ ''-'' @ w3 @ n2 @ w4 @ ''-'' @ w5 @ n3 @ rest
        \<and> list_all isspace w1 \<and> list_all isspace w2 \<and> list_all isspace w3
        \<and> list_all isspace w4 \<and> list_all isspace w5
        \<and> signedDigits n1 \<and> signedDigits n2 \<and> signedDigits n3
        \<and> fitsInt (signedValue n1) \<and> fitsInt (signedValue n2) \<and> fitsInt (signedValue n3)
        \<and> noDigitAhead rest
        \<and> dt = \<lparr>year = signedValue n1, month = signedValue n2, day = signedValue n3\<rparr>)
   \<and> (parseIsoDate s = Inl e) =
       (e = RuntimeError (''Invalid ISO date: '' @ s) \<and> (\<forall>d. parseIsoDate s \<noteq> Inr d))
   \<and> parseIsoDate ''2024-13-02'' = Inr \<lparr>year = 2024, month = 13, day = 2\<rparr>
   \<and> parseIsoDate ''2024/03/05'' = Inl (RuntimeError ''Invalid ISO date: 2024/03/05'')
   \<and> parseIsoDate ''20240305'' = Inl (RuntimeError ''Invalid ISO date: 20240305'')
   \<and> parseIsoDate ''2024-xx-05'' = Inl (RuntimeError ''Invalid ISO date: 2024-xx-05'')"
proof (intro conjI)
  show "(parseIsoDate s = Inr dt) =
     (\<exists>w1 n1 w2 w3 n2 w4 w5 n3 rest.
        s = w1 @ n1 @ w2 @ ''-'' @ w3 @ n2 @ w4 @ ''-'' @ w5 @ n3 @ rest
        \<and> list_all isspace w1 \<and> list_all isspace w2 \<and> list_all isspace w3
        \<and> list_all isspace w4 \<and> list_all isspace w5
        \<and> signedDigits n1 \<and> signedDigits n2 \<and> signedDigits n3
        \<and> fitsInt (signedValue n1) \<and> fitsInt (signedValue n2) \<and> fitsInt (signedValue n3)
        \<and> noDigitAhead rest
        \<and> dt = \<lparr>year = signedValue n1, month = signedValue n2, day = signedValue n3\<rparr>)"
  proof
    assume "parseIsoDate s = Inr dt"
    then show "\<exists>w1 n1 w2 w3 n2 w4 w5 n3 rest.
        s = w1 @ n1 @ w2 @ ''-'' @ w3 @ n2 @ w4 @ ''-'' @ w5 @ n3 @ rest
        \<and> list_all isspace w1 \<and> list_all isspace w2 \<and> list_all isspace w3
        \<and> list_all isspace w4 \<and> list_all isspace w5
        \<and> signedDigits n1 \<and> signedDigits n2 \<and> signedDigits n3
        \<and> fitsInt (signedValue n1) \<and> fitsInt (signedValue n2) \<and> fitsInt (signedValue n3)
        \<and> noDigitAhead rest
        \<and> dt = \<lparr>year = signedValue n1, month = signedValue n2, day = signedValue n3\<rparr>"
      by (rule parseIsoDate_sound)
  next
    assume "\<exists>w1 n1 w2 w3 n2 w4 w5 n3 rest.
        s = w1 @ n1 @ w2 @ ''-'' @ w3 @ n2 @ w4 @ ''-'' @ w5 @ n3 @ rest
        \<and> list_all isspace w1 \<and> list_all isspace w2 \<and> list_all isspace w3
        \<and> list_all isspace w4 \<and> list_all isspace w5
        \<and> signedDigits n1 \<and> signedDigits n2 \<and> signedDigits n3
        \<and> fitsInt (signedValue n1) \<and> fitsInt (signedValue n2) \<and> fitsInt (signedValue n3)
        \<and> noDigitAhead rest
        \<and> dt = \<lparr>year = signedValue n1, month = signedValue n2, day = signedValue n3\<rparr>"
    then show "parseIsoDate s = Inr dt"
      using parseIsoDate_complete by blast
  qed
  show "(parseIsoDate s = Inl e) =
       (e = RuntimeError (''Invalid ISO date: '' @ s) \<and> (\<forall>d. parseIsoDate s \<noteq> Inr d))"
  proof
    assume l: "parseIsoDate s = Inl e"
    then show "e = RuntimeError (''Invalid ISO date: '' @ s) \<and> (\<forall>d. parseIsoDate s \<noteq> Inr d)"
      using parseIsoDate_error [OF l] by simp
  next
    assume r: "e = RuntimeError (''Invalid ISO date: '' @ s) \<and> (\<forall>d. parseIsoDate s \<noteq> Inr d)"
    then obtain e' where "parseIsoDate s = Inl e'"
      by (cases "parseIsoDate s") auto
    with parseIsoDate_error [OF this] r show "parseIsoDate s = Inl e"
      by simp
  qed
  show "parseIsoDate ''2024-13-02'' = Inr \<lparr>year = 2024, month = 13, day = 2\<rparr>"
    by code_simp
  show "parseIsoDate ''2024/03/05'' = Inl (RuntimeError ''Invalid ISO date: 2024/03/05'')"
    by code_simp
  show "parseIsoDate ''20240305'' = Inl (RuntimeError ''Invalid ISO date: 20240305'')"
    by code_simp
  show "parseIsoDate ''2024-xx-05'' = Inl (RuntimeError ''Invalid ISO date: 2024-xx-05'')"
    by code_simp
qed

text \<open>
  C3, as stated, fails: an input that goes on after the day, or that has blanks around its
  fields, is not of the pattern \<^verbatim>\<open>YYYY-MM-DD\<close> and is parsed all the same.
\<close>

theorem parseIsoDate_accepts_trailing_text:
  "parseIsoDate ''2024-03-05xyz'' = Inr \<lparr>year = 2024, month = 3, day = 5\<rparr>
   \<and> \<not> isoPattern ''2024-03-05xyz''
   \<and> parseIsoDate '' 2024 - 3 - 5'' = Inr \<lparr>year = 2024, month = 3, day = 5\<rparr>
   \<and> \<not> isoPattern '' 2024 - 3 - 5''
   \<and> isoPattern ''2024-03-05''"
proof (intro conjI)
  show "parseIsoDate ''2024-03-05xyz'' = Inr \<lparr>year = 2024, month = 3, day = 5\<rparr>"
    by code_simp
  show "\<not> isoPattern ''2024-03-05xyz''"
    by code_simp
  show "parseIsoDate '' 2024 - 3 - 5'' = Inr \<lparr>year = 2024, month = 3, day = 5\<rparr>"
    by code_simp
  show "\<not> isoPattern '' 2024 - 3 - 5''"
    by code_simp
  show "isoPattern ''2024-03-05''"
    by code_simp
qed

subsection \<open>The round trip\<close>

lemma digitValue_range: "isdigit c \<Longrightarrow> 0 \<le> digitValue c \<and> digitValue c \<le> 9"
  by (auto simp: isdigit_def digitValue_def)

lemma digitChar_digitValue:
  assumes "isdigit c"
  shows "digitChar (nat (digitValue c)) = c"
proof -
  from assms have "48 \<le> (of_char c :: nat)"
    by (simp add: isdigit_def)
  then have "48 + nat (int (of_char c :: nat) - 48) = (of_char c :: nat)"
    by arith
  then show ?thesis
    by (simp add: digitValue_def digitChar_def)
qed

lemma decimalValue_bounds:
  "list_all isdigit ds \<Longrightarrow> 0 \<le> decimalValue ds \<and> decimalValue ds < 10 ^ length ds"
proof (induction ds rule: rev_induct)
  case Nil
  show ?case by (simp add: decimalValue_def)
next
  case (snoc c ds)
  then have ih: "0 \<le> decimalValue ds" "decimalValue ds < 10 ^ length ds"
    and c: "0 \<le> digitValue c" "digitValue c \<le> 9"
    using digitValue_range [of c] by simp_all
  from ih(2) have "decimalValue ds + 1 \<le> 10 ^ length ds"
    by simp
  then have "(decimalValue ds + 1) * 10 \<le> 10 ^ length ds * 10"
    by (rule mult_right_mono) simp
  with ih(1) c show ?case
    by (simp add: decimalValue_snoc algebra_simps)
qed

lemma showNat_step:
  "0 < m \<Longrightarrow> d < 10 \<Longrightarrow> showNat (m * 10 + d) = showNat m @ [digitChar d]"
  by (simp add: showNat.simps [of "m * 10 + d"])

lemma showNat_digit: "d < 10 \<Longrightarrow> showNat d = [digitChar d]"
  by (simp add: showNat.simps [of d])

lemma showNat_zero: "showNat 0 = ''0''"
  by code_simp

lemma setw_showNat_roundtrip:
  "list_all isdigit ds \<Longrightarrow> ds \<noteq> [] \<Longrightarrow>
     setw (length ds) CHR ''0'' (showNat (nat (decimalValue ds))) = ds"
proof (induction ds rule: rev_induct)
  case Nil
  then show ?case by simp
next
  case (snoc c ds)
  then have dig: "list_all isdigit ds" and c: "isdigit c"
    by simp_all
  let ?v = "nat (decimalValue ds)"
  let ?d = "nat (digitValue c)"
  from decimalValue_bounds [OF dig] digitValue_range [OF c]
  have val: "nat (decimalValue (ds @ [c])) = ?v * 10 + ?d" and d: "?d < 10"
    by (auto simp: decimalValue_snoc nat_add_distrib nat_mult_distrib)
  have dc: "digitChar ?d = c"
    using c by (rule digitChar_digitValue)
  show ?case
  proof (cases "ds = []")
    case True
    then have "?v = 0" by (simp add: decimalValue_def)
    with val d dc True show ?thesis
      by (simp add: showNat_digit setw_def)
  next
    case False
    with snoc.IH dig have ih: "setw (length ds) CHR ''0'' (showNat ?v) = ds"
      by simp
    show ?thesis
    proof (cases "?v = 0")
      case True
      with ih have "ds = setw (length ds) CHR ''0'' (showNat 0)"
        by simp
      also have "\<dots> = replicate (length ds - 1) CHR ''0'' @ ''0''"
        by (simp add: setw_def showNat_zero)
      also have "\<dots> = replicate (length ds) CHR ''0''"
        using False by (cases "length ds") (simp_all add: replicate_append_same)
      finally have zeros: "ds = replicate (length ds) CHR ''0''" .
      from True val d dc have "showNat (nat (decimalValue (ds @ [c]))) = [c]"
        by (simp add: showNat_digit)
      then have "setw (length (ds @ [c])) CHR ''0'' (showNat (nat (decimalValue (ds @ [c]))))
                   = replicate (length ds) CHR ''0'' @ [c]"
        by (simp add: setw_def)
      with zeros show ?thesis by simp
    next
      case False
      then have "0 < ?v" by simp
      from showNat_step [OF this d] val dc
      have "showNat (nat (decimalValue (ds @ [c]))) = showNat ?v @ [c]"
        by simp
      then have "setw (length (ds @ [c])) CHR ''0'' (showNat (nat (decimalValue (ds @ [c]))))
                   = setw (length ds) CHR ''0'' (showNat ?v) @ [c]"
        by (simp add: setw_def)
      with ih show ?thesis by simp
    qed
  qed
qed

lemma setw_showInt_roundtrip:
  "list_all isdigit ds \<Longrightarrow> ds \<noteq> [] \<Longrightarrow> setw (length ds) CHR ''0'' (showInt (decimalValue ds)) = ds"
  using decimalValue_bounds [of ds] by (simp add: showInt_def setw_showNat_roundtrip)

lemma digits_signedDigits:
  "list_all isdigit ds \<Longrightarrow> ds \<noteq> [] \<Longrightarrow> signedDigits ds \<and> signedValue ds = decimalValue ds"
  using isdigit_not_sign by (cases ds) (auto simp: signedDigits_def signedValue_def)

lemma wellFormedIso_split:
  assumes "wellFormedIso s"
  shows "s = take 4 s @ ''-'' @ take 2 (drop 5 s) @ ''-'' @ drop 8 s"
proof -
  from assms have len: "length s = 10" and d1: "s ! 4 = CHR ''-''" and d2: "s ! 7 = CHR ''-''"
    by (simp_all add: wellFormedIso_def)
  have "s = take 4 s @ drop 4 s"
    by simp
  also have "drop 4 s = s ! 4 # drop 5 s"
    using len Cons_nth_drop_Suc [of 4 s] by simp
  also have "drop 5 s = take 2 (drop 5 s) @ drop 2 (drop 5 s)"
    by (rule append_take_drop_id [symmetric])
  also have "drop 2 (drop 5 s) = drop 7 s"
    by simp
  also have "drop 7 s = s ! 7 # drop 8 s"
    using len Cons_nth_drop_Suc [of 7 s] by simp
  finally show ?thesis
    using d1 d2 by simp
qed

text \<open>
  C7. For every well-formed date \<open>s\<close> with zero-padded fields (four digits, \<^verbatim>\<open>-\<close>, two digits,
  \<^verbatim>\<open>-\<close>, two digits), \<^verbatim>\<open>parseIsoDate\<close> returns a date and \<^verbatim>\<open>formatIsoDate\<close> of that date is
  \<open>s\<close> again.
\<close>

theorem iso_round_trip:
  assumes "wellFormedIso s"
  shows "\<exists>d. parseIsoDate s = Inr d \<and> formatIsoDate d = s"
proof -
  let ?y = "take 4 s" and ?m = "take 2 (drop 5 s)" and ?d = "drop 8 s"
  from assms have len: "length ?y = 4" "length ?m = 2" "length ?d = 2"
    and dig: "list_all isdigit ?y" "list_all isdigit ?m" "list_all isdigit ?d"
    by (simp_all add: wellFormedIso_def)
  from len have ne: "?y \<noteq> []" "?m \<noteq> []" "?d \<noteq> []"
    by auto
  have sd: "signedDigits ?y" "signedDigits ?m" "signedDigits ?d"
    and sv: "signedValue ?y = decimalValue ?y" "signedValue ?m = decimalValue ?m"
      "signedValue ?d = decimalValue ?d"
    using digits_signedDigits dig ne by blast+
  have fits: "fitsInt (signedValue ?y)" "fitsInt (signedValue ?m)" "fitsInt (signedValue ?d)"
    using decimalValue_bounds [OF dig(1)] decimalValue_bounds [OF dig(2)]
      decimalValue_bounds [OF dig(3)] len sv
    by (simp_all add: fitsInt_def INT_MIN_def INT_MAX_def)
  have nil: "list_all isspace []" "noDigitAhead []"
    by (simp_all add: noDigitAhead_def)
  from parseIsoDate_complete [OF nil(1) nil(1) nil(1) nil(1) nil(1) sd fits nil(2)]
  have "parseIsoDate (?y @ ''-'' @ ?m @ ''-'' @ ?d)
          = Inr \<lparr>year = decimalValue ?y, month = decimalValue ?m, day = decimalValue ?d\<rparr>"
    by (simp add: sv)
  with wellFormedIso_split [OF assms]
  have p: "parseIsoDate s
          = Inr \<lparr>year = decimalValue ?y, month = decimalValue ?m, day = decimalValue ?d\<rparr>"
    by simp
  have "formatIsoDate \<lparr>year = decimalValue ?y, month = decimalValue ?m, day = decimalValue ?d\<rparr>
          = ?y @ ''-'' @ ?m @ ''-'' @ ?d"
    using setw_showInt_roundtrip [OF dig(1) ne(1)] setw_showInt_roundtrip [OF dig(2) ne(2)]
      setw_showInt_roundtrip [OF dig(3) ne(3)] len
    by (simp add: formatIsoDate_def)
  with wellFormedIso_split [OF assms]
  have "formatIsoDate \<lparr>year = decimalValue ?y, month = decimalValue ?m, day = decimalValue ?d\<rparr> = s"
    by simp
  with p show ?thesis by blast
qed

text \<open>The round trip of \<^verbatim>\<open>2024-03-05\<close>.\<close>

theorem iso_round_trip_witness:
  "wellFormedIso ''2024-03-05''
   \<and> (\<exists>d. parseIsoDate ''2024-03-05'' = Inr d \<and> formatIsoDate d = ''2024-03-05'')"
proof -
  have w: "wellFormedIso ''2024-03-05''"
    by code_simp
  from iso_round_trip [OF w] w show ?thesis
    by blast
qed

section \<open>The birth season of an arrival\<close>

lemma tokens_readToken:
  "tokens s = (case readToken s of None \<Rightarrow> [] | Some (t, r) \<Rightarrow> t # tokens r)"
  by (subst tokens.simps) (simp add: readToken_def Let_def)

lemma readToken_nonempty: "readToken s = Some (t, r) \<Longrightarrow> t \<noteq> []"
proof -
  assume a: "readToken s = Some (t, r)"
  then have ne: "dropWhile isspace s \<noteq> []"
    and t: "t = takeWhile (\<lambda>ch. \<not> isspace ch) (dropWhile isspace s)"
    by (auto simp: readToken_def Let_def split: if_splits)
  from ne obtain x xs where r: "dropWhile isspace s = x # xs"
    by (cases "dropWhile isspace s") auto
  with hd_dropWhile [OF ne] have "\<not> isspace x" by simp
  with r t show ?thesis by simp
qed

lemma thirdToken_tokens:
  "thirdToken s = (case drop 2 (tokens s) of [] \<Rightarrow> [] | t # ts \<Rightarrow> t)"
proof (cases "readToken s")
  case None
  then show ?thesis
    by (simp add: thirdToken_def tokens_readToken [of s])
next
  case (Some a)
  then obtain t1 r1 where 1: "readToken s = Some (t1, r1)"
    by (cases a) simp
  show ?thesis
  proof (cases "readToken r1")
    case None
    with 1 show ?thesis
      by (simp add: thirdToken_def tokens_readToken [of s] tokens_readToken [of r1])
  next
    case (Some b)
    then obtain t2 r2 where 2: "readToken r1 = Some (t2, r2)"
      by (cases b) simp
    show ?thesis
    proof (cases "readToken r2")
      case None
      with 1 2 show ?thesis
        by (simp add: thirdToken_def tokens_readToken [of s] tokens_readToken [of r1]
              tokens_readToken [of r2])
    next
      case (Some c)
      then obtain t3 r3 where 3: "readToken r2 = Some (t3, r3)"
        by (cases c) simp
      with 1 2 show ?thesis
        by (simp add: thirdToken_def tokens_readToken [of s] tokens_readToken [of r1]
              tokens_readToken [of r2])
    qed
  qed
qed

lemma thirdToken_empty_iff: "(thirdToken s = []) = (length (tokens s) < 3)"
proof (cases "readToken s")
  case None
  then show ?thesis
    by (simp add: thirdToken_def tokens_readToken [of s])
next
  case (Some a)
  then obtain t1 r1 where 1: "readToken s = Some (t1, r1)"
    by (cases a) simp
  show ?thesis
  proof (cases "readToken r1")
    case None
    with 1 show ?thesis
      by (simp add: thirdToken_def tokens_readToken [of s] tokens_readToken [of r1])
  next
    case (Some b)
    then obtain t2 r2 where 2: "readToken r1 = Some (t2, r2)"
      by (cases b) simp
    show ?thesis
    proof (cases "readToken r2")
      case None
      with 1 2 show ?thesis
        by (simp add: thirdToken_def tokens_readToken [of s] tokens_readToken [of r1]
              tokens_readToken [of r2])
    next
      case (Some c)
      then obtain t3 r3 where 3: "readToken r2 = Some (t3, r3)"
        by (cases c) simp
      with 1 2 readToken_nonempty [OF 3] show ?thesis
        by (simp add: thirdToken_def tokens_readToken [of s] tokens_readToken [of r1]
              tokens_readToken [of r2])
    qed
  qed
qed

lemma parseSeason_tokens:
  "parseSeason part =
     (if find_str (toLower part) ''born in'' \<noteq> None
      then (if length (tokens (toLower part)) < 3 then ''unknown''
            else tokens (toLower part) ! 2)
      else if trim part = [] then ''unknown'' else trim part)"
proof (cases "length (tokens (toLower part)) < 3")
  case True
  then show ?thesis
    using thirdToken_empty_iff [of "toLower part"] by (simp add: parseSeason_def Let_def)
next
  case False
  then have "Suc (Suc (Suc 0)) \<le> length (tokens (toLower part))"
    by simp
  then obtain a b t ts where "tokens (toLower part) = a # b # t # ts"
    by (auto simp: Suc_le_length_iff)
  with False thirdToken_empty_iff [of "toLower part"] show ?thesis
    by (simp add: parseSeason_def Let_def thirdToken_tokens)
qed

lemma find_str_occurs: "find_str (w @ needle @ r) needle \<noteq> None"
proof (induction w)
  case Nil
  show ?case
  proof (cases "needle @ r")
    case Nil
    then show ?thesis by simp
  next
    case (Cons a list)
    have "take (length needle) (needle @ r) = needle"
      by simp
    with Cons have "take (length needle) (a # list) = needle"
      by simp
    then have "find_str (a # list) needle = Some 0"
      by simp
    with Cons show ?thesis by simp
  qed
next
  case (Cons c w)
  then show ?case by auto
qed

lemma leading_born_in_tokens:
  assumes lead: "dropWhile isspace low = ''born in'' @ rest"
    and sep: "rest = [] \<or> isspace (hd rest)"
  shows "find_str low ''born in'' \<noteq> None"
    and "tokens low = ''born'' # ''in'' # tokens rest"
proof -
  have "low = takeWhile isspace low @ dropWhile isspace low"
    by simp
  with lead have "low = takeWhile isspace low @ ''born in'' @ rest"
    by simp
  then show "find_str low ''born in'' \<noteq> None"
    using find_str_occurs [of "takeWhile isspace low" "''born in''" rest] by simp
  have sp: "isspace CHR '' ''"
    and nsp: "\<not> isspace CHR ''b''" "\<not> isspace CHR ''o''" "\<not> isspace CHR ''r''"
      "\<not> isspace CHR ''n''" "\<not> isspace CHR ''i''"
    by (simp_all add: isspace_def)
  have t1: "readToken low = Some (''born'', '' in'' @ rest)"
    by (simp add: readToken_def lead sp nsp)
  have "takeWhile (\<lambda>ch. \<not> isspace ch) rest = [] \<and> dropWhile (\<lambda>ch. \<not> isspace ch) rest = rest"
    using sep by (cases rest) auto
  then have t2: "readToken ('' in'' @ rest) = Some (''in'', rest)"
    by (simp add: readToken_def sp nsp)
  have "tokens ('' in'' @ rest) = ''in'' # tokens rest"
    using tokens_readToken [of "'' in'' @ rest"] t2 by simp
  then show "tokens low = ''born'' # ''in'' # tokens rest"
    using tokens_readToken [of low] t1 by simp
qed

lemma tokens_nonempty: "tokens s = t # ts \<Longrightarrow> t \<noteq> []"
  using readToken_nonempty [of s]
  by (auto simp: tokens_readToken [of s] split: option.splits)

text \<open>
  C2 (as amended). When \<^verbatim>\<open>parseArrivalRow\<close> returns a row, the line has a segment 2. When
  that segment, lowered and without its leading white space, begins with "born in" followed
  by white space or by nothing, the birth season of the row is the token that follows
  "born in" in the lowered segment, or "unknown" when no token follows. When the lowered
  segment does not hold "born in", the season is the whole trimmed segment, in its own letter
  case, or "unknown" when that is empty.
\<close>

theorem parseArrivalRow_season:
  assumes "parseArrivalRow line = Inr row" and "split line '', '' = Some parts"
  shows "2 < length parts
       \<and> (\<forall>rest. dropWhile isspace (toLower (parts ! 2)) = ''born in'' @ rest
                   \<and> (rest = [] \<or> isspace (hd rest)) \<longrightarrow>
             birthSeason row = (case tokens rest of [] \<Rightarrow> ''unknown'' | t # ts \<Rightarrow> t))
       \<and> (find_str (toLower (parts ! 2)) ''born in'' = None \<longrightarrow>
             birthSeason row
               = (if trim (parts ! 2) = [] then ''unknown'' else trim (parts ! 2)))"
proof -
  from assms have len: "\<not> length parts < 6"
    by (auto simp: parseArrivalRow_def split: if_splits)
  with assms have season: "birthSeason row = parseSeason (parts ! 2)"
    by (auto simp: parseArrivalRow_def split: option.splits sum.splits)
  have lead: "birthSeason row = (case tokens rest of [] \<Rightarrow> ''unknown'' | t # ts \<Rightarrow> t)"
    if "dropWhile isspace (toLower (parts ! 2)) = ''born in'' @ rest
          \<and> (rest = [] \<or> isspace (hd rest))" for rest
  proof -
    from that have l: "dropWhile isspace (toLower (parts ! 2)) = ''born in'' @ rest"
      and s: "rest = [] \<or> isspace (hd rest)"
      by simp_all
    note f = leading_born_in_tokens(1) [OF l s] and t = leading_born_in_tokens(2) [OF l s]
    show ?thesis
    proof (cases "tokens rest")
      case Nil
      with f t season show ?thesis
        by (simp add: parseSeason_tokens)
    next
      case (Cons u us)
      with f t season show ?thesis
        by (simp add: parseSeason_tokens)
    qed
  qed
  have none: "birthSeason row = (if trim (parts ! 2) = [] then ''unknown'' else trim (parts ! 2))"
    if "find_str (toLower (parts ! 2)) ''born in'' = None"
    using that season by (simp add: parseSeason_tokens)
  from len lead none show ?thesis
    by simp
qed

text \<open>The seasons of a line whose segment 2 is \<^verbatim>\<open>born in Spring\<close> and of one whose segment 2
  is \<^verbatim>\<open>Spring\<close>.\<close>

theorem parseArrivalRow_season_witness:
  "parseArrivalRow ''2024-03-05, 3 years old female hyena, born in Spring, tan color, 70 pounds, from Friguia Park, Tunisia''
     = Inr \<lparr>arrivalDate = ''2024-03-05'', age = 3, sex = ''female'', species = ''hyena'',
            birthSeason = ''spring'', color = ''tan'', weight = 70,
            origin = ''Friguia Park, Tunisia''\<rparr>
   \<and> dropWhile isspace (toLower ''born in Spring'') = ''born in'' @ '' spring''
   \<and> (case tokens '' spring'' of [] \<Rightarrow> ''unknown'' | t # ts \<Rightarrow> t) = ''spring''
   \<and> parseArrivalRow ''2024-03-05, 3 years old female hyena, Spring, tan color, 70 pounds, from Friguia Park, Tunisia''
     = Inr \<lparr>arrivalDate = ''2024-03-05'', age = 3, sex = ''female'', species = ''hyena'',
            birthSeason = ''Spring'', color = ''tan'', weight = 70,
            origin = ''Friguia Park, Tunisia''\<rparr>
   \<and> find_str (toLower ''Spring'') ''born in'' = None
   \<and> (if trim ''Spring'' = [] then ''unknown'' else trim ''Spring'') = ''Spring''"
proof -
  let ?l1 = "''2024-03-05, 3 years old female hyena, born in Spring, tan color, 70 pounds, from Friguia Park, Tunisia''"
  let ?r1 = "\<lparr>arrivalDate = ''2024-03-05'', age = 3, sex = ''female'', species = ''hyena'',
            birthSeason = ''spring'', color = ''tan'', weight = 70,
            origin = ''Friguia Park, Tunisia''\<rparr>"
  let ?p1 = "[''2024-03-05'', ''3 years old female hyena'', ''born in Spring'', ''tan color'',
             ''70 pounds'', ''from Friguia Park'', ''Tunisia'']"
  let ?l2 = "''2024-03-05, 3 years old female hyena, Spring, tan color, 70 pounds, from Friguia Park, Tunisia''"
  let ?r2 = "\<lparr>arrivalDate = ''2024-03-05'', age = 3, sex = ''female'', species = ''hyena'',
            birthSeason = ''Spring'', color = ''tan'', weight = 70,
            origin = ''Friguia Park, Tunisia''\<rparr>"
  let ?p2 = "[''2024-03-05'', ''3 years old female hyena'', ''Spring'', ''tan color'',
             ''70 pounds'', ''from Friguia Park'', ''Tunisia'']"
  have a1: "parseArrivalRow ?l1 = Inr ?r1" by code_simp
  have b1: "split ?l1 '', '' = Some ?p1" by code_simp
  have c1: "dropWhile isspace (toLower ''born in Spring'') = ''born in'' @ '' spring''"
    by code_simp
  have d1: "'' spring'' = [] \<or> isspace (hd '' spring'')"
    by (simp add: isspace_def)
  have a2: "parseArrivalRow ?l2 = Inr ?r2" by code_simp
  have b2: "split ?l2 '', '' = Some ?p2" by code_simp
  have c2: "find_str (toLower ''Spring'') ''born in'' = None" by code_simp
  have n1: "?p1 ! 2 = ''born in Spring''" and n2: "?p2 ! 2 = ''Spring''"
    by simp_all
  note th1 = parseArrivalRow_season [OF a1 b1, unfolded n1]
    and th2 = parseArrivalRow_season [OF a2 b2, unfolded n2]
  from th1 c1 d1
  have e1: "birthSeason ?r1 = (case tokens '' spring'' of [] \<Rightarrow> ''unknown'' | t # ts \<Rightarrow> t)"
    by blast
  from th2 c2
  have e2: "birthSeason ?r2 = (if trim ''Spring'' = [] then ''unknown'' else trim ''Spring'')"
    by blast
  have s1: "birthSeason ?r1 = ''spring''" and s2: "birthSeason ?r2 = ''Spring''"
    by simp_all
  from e1 s1 have f1: "(case tokens '' spring'' of [] \<Rightarrow> ''unknown'' | t # ts \<Rightarrow> t) = ''spring''"
    by (rule trans [OF sym])
  from e2 s2 have f2: "(if trim ''Spring'' = [] then ''unknown'' else trim ''Spring'') = ''Spring''"
    by (rule trans [OF sym])
  from a1 c1 f1 a2 c2 f2 show ?thesis
    by (intro conjI)
qed

text \<open>
  C2, as stated, fails in the letter case: for the segment \<^verbatim>\<open>born in Spring\<close> the token that
  follows "born in" is \<^verbatim>\<open>Spring\<close>, and the season of the row is \<^verbatim>\<open>spring\<close>, read from the
  lowered segment.
\<close>

theorem parseArrivalRow_season_lowercased:
  "parseArrivalRow ''2024-03-05, 3 years old female hyena, born in Spring, tan color, 70 pounds, from Friguia Park, Tunisia''
     = Inr \<lparr>arrivalDate = ''2024-03-05'', age = 3, sex = ''female'', species = ''hyena'',
            birthSeason = ''spring'', color = ''tan'', weight = 70,
            origin = ''Friguia Park, Tunisia''\<rparr>
   \<and> split ''2024-03-05, 3 years old female hyena, born in Spring, tan color, 70 pounds, from Friguia Park, Tunisia'' '', ''
     = Some [''2024-03-05'', ''3 years old female hyena'', ''born in Spring'', ''tan color'',
             ''70 pounds'', ''from Friguia Park'', ''Tunisia'']
   \<and> claimedSeason ''born in Spring'' = ''Spring''"
proof (intro conjI)
  show "parseArrivalRow ''2024-03-05, 3 years old female hyena, born in Spring, tan color, 70 pounds, from Friguia Park, Tunisia''
     = Inr \<lparr>arrivalDate = ''2024-03-05'', age = 3, sex = ''female'', species = ''hyena'',
            birthSeason = ''spring'', color = ''tan'', weight = 70,
            origin = ''Friguia Park, Tunisia''\<rparr>"
    by code_simp
  show "split ''2024-03-05, 3 years old female hyena, born in Spring, tan color, 70 pounds, from Friguia Park, Tunisia'' '', ''
     = Some [''2024-03-05'', ''3 years old female hyena'', ''born in Spring'', ''tan color'',
             ''70 pounds'', ''from Friguia Park'', ''Tunisia'']"
    by code_simp
  show "claimedSeason ''born in Spring'' = ''Spring''"
    by code_simp
qed

text \<open>
  The statement of C2 above leaves out the segments that hold "born in" elsewhere than at
  their start. There the source tests for "born in" anywhere and then reads the first three
  tokens of the segment all the same, so that the season is not the token after "born in":
  for \<^verbatim>\<open>was born in spring\<close> it is \<^verbatim>\<open>in\<close>. The colour and the origin of the same parser cut
  at the position found; the season does not.
\<close>

lemma season_scan_starts_at_segment_start:
  "parseArrivalRow ''2024-03-05, 3 years old female hyena, was born in spring, tan color, 70 pounds, from Friguia Park, Tunisia''
     = Inr \<lparr>arrivalDate = ''2024-03-05'', age = 3, sex = ''female'', species = ''hyena'',
            birthSeason = ''in'', color = ''tan'', weight = 70,
            origin = ''Friguia Park, Tunisia''\<rparr>
   \<and> split ''2024-03-05, 3 years old female hyena, was born in spring, tan color, 70 pounds, from Friguia Park, Tunisia'' '', ''
     = Some [''2024-03-05'', ''3 years old female hyena'', ''was born in spring'', ''tan color'',
             ''70 pounds'', ''from Friguia Park'', ''Tunisia'']
   \<and> claimedSeason ''was born in spring'' = ''spring''"
proof (intro conjI)
  show "parseArrivalRow ''2024-03-05, 3 years old female hyena, was born in spring, tan color, 70 pounds, from Friguia Park, Tunisia''
     = Inr \<lparr>arrivalDate = ''2024-03-05'', age = 3, sex = ''female'', species = ''hyena'',
            birthSeason = ''in'', color = ''tan'', weight = 70,
            origin = ''Friguia Park, Tunisia''\<rparr>"
    by code_simp
  show "split ''2024-03-05, 3 years old female hyena, was born in spring, tan color, 70 pounds, from Friguia Park, Tunisia'' '', ''
     = Some [''2024-03-05'', ''3 years old female hyena'', ''was born in spring'', ''tan color'',
             ''70 pounds'', ''from Friguia Park'', ''Tunisia'']"
    by code_simp
  show "claimedSeason ''was born in spring'' = ''spring''"
    by code_simp
qed

end
